theory Spec2Isabelle
  imports Main "HOL-Library.Word" "HOL-Library.Monad_Syntax" "HOL-Library.Sublist"
begin

unbundle bit_operations_syntax

section \<open>Data model of \<open>src/zip/zip_archive_writer.ts\<close>\<close>

text \<open>
  A JavaScript string is a sequence of UTF-16 code units, a \<open>Uint8Array\<close> a sequence of
  bytes. JavaScript numbers that hold lengths, counts and offsets are exact integers up to
  \<open>2^53\<close>; they are modelled by \<open>nat\<close> and \<open>int\<close>, and the conversions of \<open>DataView\<close>
  (\<open>ToUint16\<close>, \<open>ToUint32\<close>) and of the bitwise operators (\<open>ToInt32\<close>) are written out.
\<close>

type_synonym jschar = "16 word"
type_synonym jsstring = "jschar list"
type_synonym byte = "8 word"
type_synonym bytes = "byte list"

definition slash :: jschar where
  "slash = 0x2F"

text \<open>A string literal of the source, written with 8-bit characters, as a JavaScript string.\<close>

definition str :: "string \<Rightarrow> jsstring" where
  "str cs = map (\<lambda>c. of_nat (of_char c)) cs"

text \<open>
  Modelled from the spec: the type \<open>BufferLike\<close> is declared in \<open>../common\<close>, which is not
  part of the sources at hand. Section 1 of the specification speaks of
  "raw byte-buffer/string-to-bytes conversion utilities": content is either text or
  a buffer of bytes.
\<close>

datatype BufferLike = Text jsstring | Binary bytes

text \<open>
  The collaborators imported from \<open>../common\<close>, \<open>../core\<close> and \<open>../stream/core\<close> are
  parameters of the model. \<open>toBytes\<close> and \<open>crc32\<close> are conversions of their argument
  and are taken as functions that return. \<open>deflate\<close> is given the buffer, the level and
  the two pass-through options; it hands chunks to \<open>streamFn\<close>, in order, and then
  either returns or throws (on a level or a chunk size that it does not accept, for one).
\<close>

datatype compression = Completes "bytes list" | Fails "bytes list"

record collaborators =
  toBytes :: "BufferLike \<Rightarrow> bytes"
  crc32 :: "bytes \<Rightarrow> int"
  deflate :: "bytes \<Rightarrow> int \<Rightarrow> bool option \<Rightarrow> int option \<Rightarrow> compression"

text \<open>
  Modelled from the spec: the four signature constants of \<open>../common\<close>. Section 6 gives
  their bytes in stream order (\<open>PK\x03\x04\<close>, \<open>PK\x07\x08\<close>, \<open>PK\x01\x02\<close>, \<open>PK\x05\x06\<close>);
  they are written little-endian.
\<close>

definition LOCAL_FILE_SIGNATURE :: int where
  "LOCAL_FILE_SIGNATURE = 0x04034b50"

definition DATA_DESCRIPTOR_SIGNATURE :: int where
  "DATA_DESCRIPTOR_SIGNATURE = 0x08074b50"

definition CENTRAL_DIR_SIGNATURE :: int where
  "CENTRAL_DIR_SIGNATURE = 0x02014b50"

definition END_SIGNATURE :: int where
  "END_SIGNATURE = 0x06054b50"

text \<open>
  The calendar fields of a JavaScript \<open>Date\<close> that the source reads. \<open>getDay\<close> is the day
  of the week, as in the source.
\<close>

record Date =
  getFullYear :: int
  getMonth :: int
  getDay :: int
  getHours :: int
  getMinutes :: int
  getSeconds :: int

subsection \<open>\<open>DataView\<close> and \<open>Uint8Array\<close> on one \<open>ArrayBuffer\<close>\<close>

text \<open>
  The source creates a \<open>DataView\<close> and a \<open>Uint8Array\<close> over the same fresh \<open>ArrayBuffer\<close>;
  the model threads the one byte sequence. A setter throws a \<open>RangeError\<close> when the
  bytes it writes do not lie within the view: that is the result \<open>None\<close>.
\<close>

definition ArrayBuffer :: "nat \<Rightarrow> bytes" where
  "ArrayBuffer n = replicate n 0"

definition setUint16 :: "bytes \<Rightarrow> nat \<Rightarrow> int \<Rightarrow> bool \<Rightarrow> bytes option" where
  "setUint16 view byteOffset v littleEndian =
     (if length view < byteOffset + 2 then None
      else
        let w = (word_of_int v :: 16 word);
            b0 = (ucast w :: byte);
            b1 = (ucast (drop_bit 8 w) :: byte)
        in Some (if littleEndian
                 then view[byteOffset := b0, byteOffset + 1 := b1]
                 else view[byteOffset := b1, byteOffset + 1 := b0]))"

definition setUint32 :: "bytes \<Rightarrow> nat \<Rightarrow> int \<Rightarrow> bool \<Rightarrow> bytes option" where
  "setUint32 view byteOffset v littleEndian =
     (if length view < byteOffset + 4 then None
      else
        let w = (word_of_int v :: 32 word);
            b0 = (ucast w :: byte);
            b1 = (ucast (drop_bit 8 w) :: byte);
            b2 = (ucast (drop_bit 16 w) :: byte);
            b3 = (ucast (drop_bit 24 w) :: byte)
        in Some (if littleEndian
                 then view[byteOffset := b0, byteOffset + 1 := b1,
                           byteOffset + 2 := b2, byteOffset + 3 := b3]
                 else view[byteOffset := b3, byteOffset + 1 := b2,
                           byteOffset + 2 := b1, byteOffset + 3 := b0]))"

text \<open>\<open>bytes.set(source, offset)\<close> of a typed array.\<close>

definition set_bytes :: "bytes \<Rightarrow> bytes \<Rightarrow> nat \<Rightarrow> bytes option" where
  "set_bytes target source off =
     (if length target < off + length source then None
      else Some (take off target @ source @ drop (off + length source) target))"

subsection \<open>Timestamp encoder\<close>

text \<open>
  \<open><<\<close>, \<open>>>\<close> and \<open>|\<close> work on 32-bit two's complement integers and return one.
\<close>

definition createDosFileDate :: "Date \<Rightarrow> int" where
  "createDosFileDate d =
     sint ((push_bit 9 (word_of_int (getFullYear d - 1980))
            OR push_bit 5 (word_of_int (getMonth d + 1))
            OR word_of_int (getDay d)) :: 32 word)"

definition createDosFileTime :: "Date \<Rightarrow> int" where
  "createDosFileTime d =
     sint ((push_bit 11 (word_of_int (getHours d))
            OR push_bit 5 (word_of_int (getMinutes d))
            OR signed_drop_bit 1 (word_of_int (getSeconds d))) :: 32 word)"

subsection \<open>Record encoders\<close>

definition createLocalFileHeader :: "bytes \<Rightarrow> Date \<Rightarrow> bool \<Rightarrow> bytes option" where
  "createLocalFileHeader fileName d isDeflated = do {
     let view = ArrayBuffer (30 + length fileName);
     view \<leftarrow> setUint32 view 0 LOCAL_FILE_SIGNATURE True;
     view \<leftarrow> setUint16 view 4 20 True;
     view \<leftarrow> setUint16 view 6 0x0808 False;
     view \<leftarrow> setUint16 view 8 (if isDeflated then 8 else 0) True;
     view \<leftarrow> setUint16 view 10 (createDosFileTime d) True;
     view \<leftarrow> setUint16 view 12 (createDosFileDate d) True;
     view \<leftarrow> setUint16 view 26 (int (length fileName)) True;
     set_bytes view fileName 30
   }"

definition createDataDescriptor :: "int \<Rightarrow> nat \<Rightarrow> nat \<Rightarrow> bytes option" where
  "createDataDescriptor crc compressedSize uncompressedSize = do {
     let view = ArrayBuffer 16;
     view \<leftarrow> setUint32 view 0 DATA_DESCRIPTOR_SIGNATURE True;
     view \<leftarrow> setUint32 view 4 crc True;
     view \<leftarrow> setUint32 view 8 (int compressedSize) True;
     view \<leftarrow> setUint32 view 12 (int uncompressedSize) True;
     Some view
   }"

definition createCentralDirHeader ::
  "bytes \<Rightarrow> Date \<Rightarrow> bool \<Rightarrow> nat \<Rightarrow> nat \<Rightarrow> nat \<Rightarrow> int \<Rightarrow> bytes option" where
  "createCentralDirHeader fileName d isDeflated fileOffset uncompressedSize compressedSize crc = do {
     let view = ArrayBuffer (46 + length fileName);
     view \<leftarrow> setUint32 view 0 CENTRAL_DIR_SIGNATURE True;
     view \<leftarrow> setUint16 view 4 20 True;
     view \<leftarrow> setUint16 view 6 20 True;
     view \<leftarrow> setUint16 view 8 0x0808 False;
     view \<leftarrow> setUint16 view 10 (if isDeflated then 8 else 0) True;
     view \<leftarrow> setUint16 view 12 (createDosFileTime d) True;
     view \<leftarrow> setUint16 view 14 (createDosFileDate d) True;
     view \<leftarrow> setUint32 view 16 crc True;
     view \<leftarrow> setUint32 view 20 (int compressedSize) True;
     view \<leftarrow> setUint32 view 24 (int uncompressedSize) True;
     view \<leftarrow> setUint16 view 28 (int (length fileName)) True;
     view \<leftarrow> setUint32 view 42 (int fileOffset) True;
     set_bytes view fileName 46
   }"

definition createEndCentDirHeader :: "nat \<Rightarrow> nat \<Rightarrow> nat \<Rightarrow> bytes option" where
  "createEndCentDirHeader numberOfCentralDirs centralDirHeaderSize centralDirStartOffset = do {
     let view = ArrayBuffer 22;
     view \<leftarrow> setUint32 view 0 END_SIGNATURE True;
     view \<leftarrow> setUint16 view 4 0 True;
     view \<leftarrow> setUint16 view 6 0 True;
     view \<leftarrow> setUint16 view 8 (int numberOfCentralDirs) True;
     view \<leftarrow> setUint16 view 10 (int numberOfCentralDirs) True;
     view \<leftarrow> setUint32 view 12 (int centralDirHeaderSize) True;
     view \<leftarrow> setUint32 view 16 (int centralDirStartOffset) True;
     view \<leftarrow> setUint16 view 20 0 True;
     Some view
   }"

section \<open>The archive engine: class \<open>ZipArchiveWriter\<close>\<close>

record ZipArchiveWriterConstructorParams =
  shareMemory :: "bool option"
  chunkSize :: "int option"

text \<open>
  The listeners are callbacks of the caller. What they observe is the sequence of calls
  of \<open>trigger\<close>: \<open>trigger('data', chunk)\<close> is the event \<open>Data chunk\<close> and
  \<open>trigger('end', null)\<close> the event \<open>End\<close>. The engine's state carries that sequence.
\<close>

datatype event = Data bytes | End

text \<open>
  \<open>dirs\<close> is an object used as a map from path to \<open>true\<close>; a missing key reads as
  \<open>undefined\<close>, which is falsy. Every key the source reads or writes ends in \<open>/\<close>, so no
  property inherited from \<open>Object.prototype\<close> is ever read.
\<close>

record ZipArchiveWriter = ZipArchiveWriterConstructorParams +
  dirs :: "jsstring \<Rightarrow> bool"
  centralDirHeaders :: "bytes list"
  offset :: nat
  date :: Date
  emitted :: "event list"

text \<open>The constructor; \<open>now\<close> is what \<open>new Date()\<close> reads from the clock.\<close>

definition new_ZipArchiveWriter ::
  "ZipArchiveWriterConstructorParams \<Rightarrow> Date \<Rightarrow> ZipArchiveWriter" where
  "new_ZipArchiveWriter params now =
     \<lparr> shareMemory = shareMemory params, chunkSize = chunkSize params,
       dirs = (\<lambda>_. False), centralDirHeaders = [], offset = 0, date = now, emitted = [] \<rparr>"

definition trigger :: "event \<Rightarrow> ZipArchiveWriter \<Rightarrow> ZipArchiveWriter" where
  "trigger ev s = s\<lparr> emitted := emitted s @ [ev] \<rparr>"

text \<open>
  A method returns, or it throws: the source catches nothing, so what a collaborator or
  a setter throws leaves the method at once. The engine is a mutable object; after a
  throw it is as the method left it, and the caller still holds it.
\<close>

datatype error = RangeError | TypeError | CompressorError

datatype 'a outcome = Returned 'a | Thrown error ZipArchiveWriter

fun andThen :: "'a outcome \<Rightarrow> ('a \<Rightarrow> 'b outcome) \<Rightarrow> 'b outcome" where
  "andThen (Returned x) f = f x"
| "andThen (Thrown err s) f = Thrown err s"

text \<open>The result of a record encoder, inside a method of the engine \<open>s\<close>.\<close>

fun orRangeError :: "'a option \<Rightarrow> ZipArchiveWriter \<Rightarrow> 'a outcome" where
  "orRangeError (Some x) s = Returned x"
| "orRangeError None s = Thrown RangeError s"

text \<open>
  \<open>/.+\/$/.test(path)\<close>: the pattern is not anchored at the start, and \<open>.\<close> matches
  any code unit but a line terminator. It matches when the last code unit is \<open>/\<close> and the
  one before it exists and is no line terminator.
\<close>

definition isLineTerminator :: "jschar \<Rightarrow> bool" where
  "isLineTerminator c = (c = 0x000A \<or> c = 0x000D \<or> c = 0x2028 \<or> c = 0x2029)"

definition dirPattern :: "jsstring \<Rightarrow> bool" where
  "dirPattern path =
     (case rev path of
        c # b # _ \<Rightarrow> c = slash \<and> \<not> isLineTerminator b
      | _ \<Rightarrow> False)"

text \<open>The statement \<open>path += /.+\/$/.test(path) ? '' : '/'\<close>.\<close>

definition dirName :: "jsstring \<Rightarrow> jsstring" where
  "dirName path = path @ (if dirPattern path then [] else [slash])"

definition writeDir ::
  "collaborators \<Rightarrow> jsstring \<Rightarrow> ZipArchiveWriter \<Rightarrow> ZipArchiveWriter outcome" where
  "writeDir e path0 s =
     (let path = dirName path0 in
      if \<not> dirs s path then
        let s = s\<lparr> dirs := (dirs s)(path := True) \<rparr>;
            pathAsBytes = toBytes e (Text path)
        in andThen (orRangeError (createLocalFileHeader pathAsBytes (date s) False) s)
             (\<lambda>localFileHeader.
           andThen (orRangeError
               (createCentralDirHeader pathAsBytes (date s) False (offset s) 0 0 0) s)
             (\<lambda>centralDirHeader.
           let s = s\<lparr> centralDirHeaders := centralDirHeaders s @ [centralDirHeader] \<rparr>;
               s = trigger (Data localFileHeader) s
           in Returned (s\<lparr> offset := offset s + length localFileHeader \<rparr>)))
      else Returned s)"

text \<open>
  \<open>if (level)\<close> and \<open>!!level\<close>: \<open>undefined\<close> and \<open>0\<close> are falsy, every other integer is
  truthy. A level is an integer or absent; \<open>NaN\<close> and fractions are not modelled.
\<close>

definition truthy :: "int option \<Rightarrow> bool" where
  "truthy level = (case level of None \<Rightarrow> False | Some n \<Rightarrow> n \<noteq> 0)"

text \<open>The callback given to \<open>deflate\<close>, on the local \<open>compressedSize\<close> and the engine.\<close>

definition streamFn :: "bytes \<Rightarrow> nat \<times> ZipArchiveWriter \<Rightarrow> nat \<times> ZipArchiveWriter" where
  "streamFn chunk = (\<lambda>(compressedSize, s). (compressedSize + length chunk, trigger (Data chunk) s))"

text \<open>
  The \<open>if (level) ... else ...\<close> of \<open>writeFile\<close>; the result is \<open>compressedSize\<close>. When
  \<open>deflate\<close> throws, the chunks it has handed over are emitted and nothing else of
  \<open>writeFile\<close> runs.
\<close>

definition writeContent ::
  "collaborators \<Rightarrow> bytes \<Rightarrow> int option \<Rightarrow> ZipArchiveWriter
    \<Rightarrow> (nat \<times> ZipArchiveWriter) outcome" where
  "writeContent e bs level s =
     (case level of
        None \<Rightarrow> Returned (length bs, trigger (Data bs) s)
      | Some n \<Rightarrow>
          if n \<noteq> 0
          then (case deflate e bs n (shareMemory s) (chunkSize s) of
                  Completes chunks \<Rightarrow> Returned (fold streamFn chunks (0, s))
                | Fails chunks \<Rightarrow> Thrown CompressorError (snd (fold streamFn chunks (0, s))))
          else Returned (length bs, trigger (Data bs) s))"

definition writeFile ::
  "collaborators \<Rightarrow> jsstring \<Rightarrow> BufferLike \<Rightarrow> int option \<Rightarrow> ZipArchiveWriter
    \<Rightarrow> ZipArchiveWriter outcome" where
  "writeFile e path buffer level s =
     (let pathAsBytes = toBytes e (Text path);
          offset0 = offset s
      in andThen (orRangeError (createLocalFileHeader pathAsBytes (date s) (truthy level)) s)
           (\<lambda>localFileHeader.
         let bs = toBytes e buffer;
             s = trigger (Data localFileHeader) s
         in andThen (writeContent e bs level s)
           (\<lambda>(compressedSize, s).
         let crc = crc32 e bs
         in andThen (orRangeError (createDataDescriptor crc compressedSize (length bs)) s)
           (\<lambda>dataDescriptor.
         let s = trigger (Data dataDescriptor) s
         in andThen (orRangeError
               (createCentralDirHeader pathAsBytes (date s) (truthy level) offset0 (length bs)
                  compressedSize crc) s)
           (\<lambda>centralDirHeader.
         let s = s\<lparr> centralDirHeaders := centralDirHeaders s @ [centralDirHeader] \<rparr>
         in Returned (s\<lparr> offset := offset s + (length localFileHeader + compressedSize
                                             + length dataDescriptor) \<rparr>))))))"

text \<open>
  \<open>path.split('/')\<close>: the segments between the separators; the result is never empty.
\<close>

fun split_from :: "jschar \<Rightarrow> jsstring \<Rightarrow> jsstring \<Rightarrow> jsstring list" where
  "split_from sep cur [] = [cur]"
| "split_from sep cur (c # cs) =
     (if c = sep then cur # split_from sep [] cs else split_from sep (cur @ [c]) cs)"

definition split :: "jschar \<Rightarrow> jsstring \<Rightarrow> jsstring list" where
  "split sep path = split_from sep [] path"

text \<open>
  \<open>reduce\<close> without an initial value: the first element is the first accumulator, the
  callback runs on each later element, and an empty array is a \<open>TypeError\<close>. The callback
  calls \<open>writeDir(parent + '/')\<close> and returns \<open>parent + '/' + child\<close>.
\<close>

fun reduce_dirs ::
  "collaborators \<Rightarrow> jsstring \<Rightarrow> jsstring list \<Rightarrow> ZipArchiveWriter
    \<Rightarrow> (jsstring \<times> ZipArchiveWriter) outcome" where
  "reduce_dirs e parent [] s = Returned (parent, s)"
| "reduce_dirs e parent (child # rest) s =
     andThen (writeDir e (parent @ [slash]) s)
       (\<lambda>s. reduce_dirs e (parent @ [slash] @ child) rest s)"

text \<open>The method \<open>write\<close> of the source (the specification's \<open>writePath\<close>).\<close>

definition writePath ::
  "collaborators \<Rightarrow> jsstring \<Rightarrow> BufferLike \<Rightarrow> int option \<Rightarrow> ZipArchiveWriter
    \<Rightarrow> ZipArchiveWriter outcome" where
  "writePath e path buffer level s =
     (case split slash path of
        [] \<Rightarrow> Thrown TypeError s
      | first # rest \<Rightarrow>
          andThen (reduce_dirs e first rest s)
            (\<lambda>(_, s). writeFile e path buffer level s))"

text \<open>The \<open>forEach\<close> of \<open>writeEnd\<close>, on the local \<open>centralDirHeaderSize\<close> and the engine.\<close>

definition emitHeader :: "bytes \<Rightarrow> nat \<times> ZipArchiveWriter \<Rightarrow> nat \<times> ZipArchiveWriter" where
  "emitHeader header =
     (\<lambda>(centralDirHeaderSize, s). (centralDirHeaderSize + length header, trigger (Data header) s))"

definition writeEnd :: "ZipArchiveWriter \<Rightarrow> ZipArchiveWriter outcome" where
  "writeEnd s =
     (let (centralDirHeaderSize, s) = fold emitHeader (centralDirHeaders s) (0, s)
      in andThen (orRangeError
            (createEndCentDirHeader (length (centralDirHeaders s)) centralDirHeaderSize
               (offset s)) s)
           (\<lambda>endHeader.
         let s = trigger (Data endHeader) s
         in Returned (trigger End s)))"

subsection \<open>Sequences of calls\<close>

text \<open>
  A sequence of calls with nothing caught between them: what one call throws ends the
  sequence.
\<close>

datatype call =
    WriteDir jsstring
  | WriteFile jsstring BufferLike "int option"
  | Write jsstring BufferLike "int option"

fun do_call :: "collaborators \<Rightarrow> call \<Rightarrow> ZipArchiveWriter \<Rightarrow> ZipArchiveWriter outcome" where
  "do_call e (WriteDir path) s = writeDir e path s"
| "do_call e (WriteFile path buffer level) s = writeFile e path buffer level s"
| "do_call e (Write path buffer level) s = writePath e path buffer level s"

fun do_calls ::
  "collaborators \<Rightarrow> call list \<Rightarrow> ZipArchiveWriter \<Rightarrow> ZipArchiveWriter outcome" where
  "do_calls e [] s = Returned s"
| "do_calls e (c # cs) s = andThen (do_call e c s) (do_calls e cs)"

subsection \<open>Reading an archive's records\<close>

text \<open>Little-endian fields of a record, as a reader of the archive decodes them.\<close>

definition getUint16 :: "bytes \<Rightarrow> nat \<Rightarrow> nat" where
  "getUint16 view off = unat (view ! off) + 256 * unat (view ! (off + 1))"

definition getUint32 :: "bytes \<Rightarrow> nat \<Rightarrow> nat" where
  "getUint32 view off =
     unat (view ! off) + 256 * unat (view ! (off + 1))
       + 65536 * unat (view ! (off + 2)) + 16777216 * unat (view ! (off + 3))"

text \<open>The number of bytes of the chunks of a sequence of events.\<close>

fun emittedLength :: "event list \<Rightarrow> nat" where
  "emittedLength [] = 0"
| "emittedLength (Data chunk # evs) = length chunk + emittedLength evs"
| "emittedLength (End # evs) = emittedLength evs"

section \<open>Notions used in the statements\<close>

text \<open>
  The engine that a call of \<open>writeDir\<close>, \<open>writeFile\<close> or \<open>write\<close> leaves when it
  returns: the events emitted before are a prefix of the events emitted after, the options
  and the date are the same, and the offset has advanced by the number of bytes emitted.
\<close>

definition advances :: "ZipArchiveWriter \<Rightarrow> ZipArchiveWriter \<Rightarrow> bool" where
  "advances s t = (\<exists>evs. emitted t = emitted s @ evs
      \<and> offset t = offset s + emittedLength evs
      \<and> date t = date s \<and> shareMemory t = shareMemory s \<and> chunkSize t = chunkSize s)"

text \<open>
  The time and the date fields of a central directory record \<open>h\<close> encode the date \<open>d\<close>;
  the same for a local file header, whose two fields lie two bytes earlier.
\<close>

definition centralStamp :: "Date \<Rightarrow> bytes \<Rightarrow> bool" where
  "centralStamp d h =
     (getUint16 h 12 = nat (createDosFileTime d mod 65536)
      \<and> getUint16 h 14 = nat (createDosFileDate d mod 65536))"

definition localStamp :: "Date \<Rightarrow> bytes \<Rightarrow> bool" where
  "localStamp d h =
     (getUint16 h 10 = nat (createDosFileTime d mod 65536)
      \<and> getUint16 h 12 = nat (createDosFileDate d mod 65536))"

text \<open>
  The directory prefixes of a path, in the words of the specification: every prefix of
  the path that ends before a segment other than the first, that is every prefix that ends
  in \<open>/\<close>, from the shortest to the longest.
\<close>

definition dirPrefixes :: "jsstring \<Rightarrow> jsstring list" where
  "dirPrefixes path = filter (\<lambda>d. d \<noteq> [] \<and> last d = slash) (prefixes path)"

text \<open>Calls of \<open>writeDir\<close> on the paths of a list, in its order.\<close>

fun writeDirs ::
  "collaborators \<Rightarrow> jsstring list \<Rightarrow> ZipArchiveWriter \<Rightarrow> ZipArchiveWriter outcome" where
  "writeDirs e [] s = Returned s"
| "writeDirs e (d # ds) s = andThen (writeDir e d s) (writeDirs e ds)"

text \<open>The arguments of the calls of \<open>writeDir\<close> that \<open>reduce_dirs\<close> makes.\<close>

fun reduce_args :: "jsstring \<Rightarrow> jsstring list \<Rightarrow> jsstring list" where
  "reduce_args parent [] = []"
| "reduce_args parent (child # rest) =
     (parent @ [slash]) # reduce_args (parent @ [slash] @ child) rest"

text \<open>
  The normalisation of a directory path in the words of the specification: a trailing
  \<open>/\<close> is appended when absent.
\<close>

definition appendSlash :: "jsstring \<Rightarrow> jsstring" where
  "appendSlash path = (if path \<noteq> [] \<and> last path = slash then path else path @ [slash])"

text \<open>
  The rule of the engine on paths without line terminators: a trailing \<open>/\<close> is appended
  unless the path ends in \<open>/\<close> after at least one other code unit.
\<close>

definition appendSlashToName :: "jsstring \<Rightarrow> jsstring" where
  "appendSlashToName path =
     (if 2 \<le> length path \<and> last path = slash then path else path @ [slash])"

definition noLineTerminator :: "jsstring \<Rightarrow> bool" where
  "noLineTerminator path = list_all (\<lambda>c. \<not> isLineTerminator c) path"

text \<open>
  Stand-ins for the collaborators, a date and the constructor's options, for the
  instances on concrete input: the text bytes of an ASCII string, a constant checksum
  and a compressor that throws on a level outside \<open>-1..9\<close> and on the chunk size 0,
  before it hands over a chunk, and otherwise hands the buffer back as its one chunk.
\<close>

definition sample :: collaborators where
  "sample = \<lparr> toBytes = (\<lambda>b. case b of Text t \<Rightarrow> map ucast t | Binary bs \<Rightarrow> bs),
               crc32 = (\<lambda>_. 0),
               deflate = (\<lambda>bs level _ size.
                  if level < - 1 \<or> 9 < level \<or> size = Some 0 then Fails []
                  else Completes [bs]) \<rparr>"

definition someDate :: Date where
  "someDate = \<lparr> getFullYear = 2020, getMonth = 0, getDay = 3,
                 getHours = 12, getMinutes = 30, getSeconds = 10 \<rparr>"

definition noParams :: ZipArchiveWriterConstructorParams where
  "noParams = \<lparr> shareMemory = None, chunkSize = None \<rparr>"

definition fresh :: ZipArchiveWriter where
  "fresh = new_ZipArchiveWriter noParams someDate"

section \<open>Properties of the record encoders\<close>

subsection \<open>Bytes of a 16-bit and of a 32-bit value\<close>

lemma unat_ucast_byte16: "unat (ucast (w :: 16 word) :: byte) = unat w mod 256"
  by (simp add: unsigned_ucast_eq take_bit_eq_mod)

lemma unat_ucast_byte32: "unat (ucast (w :: 32 word) :: byte) = unat w mod 256"
  by (simp add: unsigned_ucast_eq take_bit_eq_mod)

lemma le16_bytes: "unat (ucast (w :: 16 word) :: byte) + 256 * unat (ucast (drop_bit 8 w) :: byte) = unat w"
proof -
  have "unat w < 65536" using unsigned_less [of w, where ?'a = nat] by simp
  moreover have "unat (drop_bit 8 w) = unat w div 256"
    by (simp only: unat_drop_bit_eq) (simp add: drop_bit_eq_div)
  ultimately show ?thesis
    by (simp add: unat_ucast_byte16)
qed

lemma le32_bytes: "unat (ucast (w :: 32 word) :: byte) + 256 * unat (ucast (drop_bit 8 w) :: byte)
   + 65536 * unat (ucast (drop_bit 16 w) :: byte) + 16777216 * unat (ucast (drop_bit 24 w) :: byte) = unat w"
proof -
  have "unat w < 4294967296" using unsigned_less [of w, where ?'a = nat] by simp
  moreover have "unat (drop_bit 8 w) = unat w div 256" "unat (drop_bit 16 w) = unat w div 65536"
     "unat (drop_bit 24 w) = unat w div 16777216"
    by (simp_all only: unat_drop_bit_eq) (simp_all add: drop_bit_eq_div)
  moreover have "x mod 256 + 256 * (x div 256 mod 256) + 65536 * (x div 65536 mod 256)
      + 16777216 * (x div 16777216) = x" for x :: nat
  proof -
    define y where "y = x div 256"
    define z where "z = y div 256"
    have a: "x div 65536 = z" "x div 16777216 = z div 256"
      by (simp_all add: y_def z_def div_mult2_eq [symmetric])
    have "x = 256 * y + x mod 256" "y = 256 * z + y mod 256" "z = 256 * (z div 256) + z mod 256"
      by (simp_all add: y_def z_def)
    then show ?thesis
      unfolding a y_def [symmetric] by linarith
  qed
  ultimately show ?thesis
    by (simp add: unat_ucast_byte32)
qed


lemma unat_word_of_int16: "unat (word_of_int v :: 16 word) = nat (v mod 65536)"
  by (simp add: unsigned_of_int take_bit_eq_mod)

lemma unat_word_of_int32: "unat (word_of_int v :: 32 word) = nat (v mod 4294967296)"
  by (simp add: unsigned_of_int take_bit_eq_mod)

lemmas enc_defs = setUint16_def setUint32_def set_bytes_def ArrayBuffer_def Let_def

lemmas field_simps16 = getUint16_def nth_append nth_list_update le16_bytes unat_word_of_int16
lemmas field_simps32 = getUint32_def nth_append nth_list_update le32_bytes unat_word_of_int32

subsection \<open>The local file header\<close>

lemma createLocalFileHeader_Some: "\<exists>h. createLocalFileHeader n d b = Some h"
  by (simp add: createLocalFileHeader_def enc_defs)

lemma createLocalFileHeader_length:
  "createLocalFileHeader n d b = Some h \<Longrightarrow> length h = 30 + length n"
  by (auto simp add: createLocalFileHeader_def enc_defs)

lemma createLocalFileHeader_time:
  "createLocalFileHeader n d b = Some h \<Longrightarrow> getUint16 h 10 = nat (createDosFileTime d mod 65536)"
  apply (simp add: createLocalFileHeader_def enc_defs)
  apply (erule subst)
  apply (simp add: field_simps16)
  done

lemma createLocalFileHeader_date:
  "createLocalFileHeader n d b = Some h \<Longrightarrow> getUint16 h 12 = nat (createDosFileDate d mod 65536)"
  apply (simp add: createLocalFileHeader_def enc_defs)
  apply (erule subst)
  apply (simp add: field_simps16)
  done

subsection \<open>The data descriptor\<close>

lemma createDataDescriptor_Some: "\<exists>h. createDataDescriptor crc cs us = Some h"
  by (simp add: createDataDescriptor_def enc_defs)

lemma createDataDescriptor_length:
  "createDataDescriptor crc cs us = Some h \<Longrightarrow> length h = 16"
  by (auto simp add: createDataDescriptor_def enc_defs)

lemma createDataDescriptor_compressedSize:
  "createDataDescriptor crc cs us = Some h \<Longrightarrow> getUint32 h 8 = cs mod 2 ^ 32"
  apply (simp add: createDataDescriptor_def enc_defs)
  apply (erule subst)
  apply (simp add: field_simps32 unat_of_nat)
  done

lemma createDataDescriptor_uncompressedSize:
  "createDataDescriptor crc cs us = Some h \<Longrightarrow> getUint32 h 12 = us mod 2 ^ 32"
  apply (simp add: createDataDescriptor_def enc_defs)
  apply (erule subst)
  apply (simp add: field_simps32 unat_of_nat)
  done

subsection \<open>The central directory record\<close>

lemma createCentralDirHeader_Some: "\<exists>h. createCentralDirHeader n d b off us cs crc = Some h"
  by (simp add: createCentralDirHeader_def enc_defs)

lemma createCentralDirHeader_length:
  "createCentralDirHeader n d b off us cs crc = Some h \<Longrightarrow> length h = 46 + length n"
  by (auto simp add: createCentralDirHeader_def enc_defs)

lemma createCentralDirHeader_time:
  "createCentralDirHeader n d b off us cs crc = Some h
    \<Longrightarrow> getUint16 h 12 = nat (createDosFileTime d mod 65536)"
  apply (simp add: createCentralDirHeader_def enc_defs)
  apply (erule subst)
  apply (simp add: field_simps16)
  done

lemma createCentralDirHeader_date:
  "createCentralDirHeader n d b off us cs crc = Some h
    \<Longrightarrow> getUint16 h 14 = nat (createDosFileDate d mod 65536)"
  apply (simp add: createCentralDirHeader_def enc_defs)
  apply (erule subst)
  apply (simp add: field_simps16)
  done

lemma createCentralDirHeader_compressedSize:
  "createCentralDirHeader n d b off us cs crc = Some h \<Longrightarrow> getUint32 h 20 = cs mod 2 ^ 32"
  apply (simp add: createCentralDirHeader_def enc_defs)
  apply (erule subst)
  apply (simp add: field_simps32 unat_of_nat)
  done

lemma createCentralDirHeader_uncompressedSize:
  "createCentralDirHeader n d b off us cs crc = Some h \<Longrightarrow> getUint32 h 24 = us mod 2 ^ 32"
  apply (simp add: createCentralDirHeader_def enc_defs)
  apply (erule subst)
  apply (simp add: field_simps32 unat_of_nat)
  done

lemma createCentralDirHeader_fileOffset:
  "createCentralDirHeader n d b off us cs crc = Some h \<Longrightarrow> getUint32 h 42 = off mod 2 ^ 32"
  apply (simp add: createCentralDirHeader_def enc_defs)
  apply (erule subst)
  apply (simp add: field_simps32 unat_of_nat)
  done

subsection \<open>The end of central directory record\<close>

lemma createEndCentDirHeader_Some: "\<exists>h. createEndCentDirHeader k sz off = Some h"
  by (simp add: createEndCentDirHeader_def enc_defs)

lemma createEndCentDirHeader_length:
  "createEndCentDirHeader k sz off = Some h \<Longrightarrow> length h = 22"
  by (auto simp add: createEndCentDirHeader_def enc_defs)

lemma createEndCentDirHeader_count_disk:
  "createEndCentDirHeader k sz off = Some h \<Longrightarrow> getUint16 h 8 = k mod 2 ^ 16"
  apply (simp add: createEndCentDirHeader_def enc_defs)
  apply (erule subst)
  apply (simp add: field_simps16 unat_of_nat)
  done

lemma createEndCentDirHeader_count_total:
  "createEndCentDirHeader k sz off = Some h \<Longrightarrow> getUint16 h 10 = k mod 2 ^ 16"
  apply (simp add: createEndCentDirHeader_def enc_defs)
  apply (erule subst)
  apply (simp add: field_simps16 unat_of_nat)
  done

lemma createEndCentDirHeader_size:
  "createEndCentDirHeader k sz off = Some h \<Longrightarrow> getUint32 h 12 = sz mod 2 ^ 32"
  apply (simp add: createEndCentDirHeader_def enc_defs)
  apply (erule subst)
  apply (simp add: field_simps32 unat_of_nat)
  done

lemma createEndCentDirHeader_start:
  "createEndCentDirHeader k sz off = Some h \<Longrightarrow> getUint32 h 16 = off mod 2 ^ 32"
  apply (simp add: createEndCentDirHeader_def enc_defs)
  apply (erule subst)
  apply (simp add: field_simps32 unat_of_nat)
  done

section \<open>Properties of the engine\<close>

subsection \<open>The result of each method\<close>

lemma emittedLength_append: "emittedLength (xs @ ys) = emittedLength xs + emittedLength ys"
  by (induction xs rule: emittedLength.induct) simp_all

lemma emittedLength_map_Data: "emittedLength (map Data cs) = sum_list (map length cs)"
  by (induction cs) simp_all

lemma fold_streamFn:
  "fold streamFn cs (k, s) = (k + sum_list (map length cs), s\<lparr> emitted := emitted s @ map Data cs \<rparr>)"
  by (induction cs arbitrary: k s) (simp_all add: streamFn_def trigger_def)

lemma fold_emitHeader:
  "fold emitHeader hs (k, s) = (k + sum_list (map length hs), s\<lparr> emitted := emitted s @ map Data hs \<rparr>)"
  by (induction hs arbitrary: k s) (simp_all add: emitHeader_def trigger_def)

lemma writeContent_stored:
  "\<not> truthy level \<Longrightarrow>
   writeContent e bs level s = Returned (length bs, s\<lparr> emitted := emitted s @ [Data bs] \<rparr>)"
  by (cases level) (simp_all add: writeContent_def truthy_def trigger_def)

text \<open>
  The content either goes out whole, as chunks whose lengths add up to the compressed
  size, or the compressor throws after the chunks it has handed over.
\<close>

lemma writeContent_cases:
  obtains (completes) cs where
      "writeContent e bs level s
         = Returned (sum_list (map length cs), s\<lparr> emitted := emitted s @ map Data cs \<rparr>)"
      "truthy level \<or> cs = [bs]"
  | (fails) cs where
      "truthy level"
      "writeContent e bs level s
         = Thrown CompressorError (s\<lparr> emitted := emitted s @ map Data cs \<rparr>)"
proof (cases "truthy level")
  case False
  then have "writeContent e bs level s
      = Returned (sum_list (map length [bs]), s\<lparr> emitted := emitted s @ map Data [bs] \<rparr>)"
    by (simp add: writeContent_stored)
  from completes [OF this] False show thesis by simp
next
  case True
  then obtain n where n: "level = Some n" "n \<noteq> 0"
    by (cases level) (auto simp: truthy_def)
  show thesis
  proof (cases "deflate e bs n (shareMemory s) (chunkSize s)")
    case (Completes cs)
    with n have "writeContent e bs level s
        = Returned (sum_list (map length cs), s\<lparr> emitted := emitted s @ map Data cs \<rparr>)"
      by (simp add: writeContent_def fold_streamFn)
    from completes [OF this] True show thesis by simp
  next
    case (Fails cs)
    with n have "writeContent e bs level s
        = Thrown CompressorError (s\<lparr> emitted := emitted s @ map Data cs \<rparr>)"
      by (simp add: writeContent_def fold_streamFn)
    with True show thesis by (rule fails)
  qed
qed

lemma writeDir_known: "dirs s (dirName path) \<Longrightarrow> writeDir e path s = Returned s"
  by (simp add: writeDir_def)

lemma writeDir_fresh:
  assumes "\<not> dirs s (dirName path)"
  obtains lfh cdh where
    "createLocalFileHeader (toBytes e (Text (dirName path))) (date s) False = Some lfh"
    "createCentralDirHeader (toBytes e (Text (dirName path))) (date s) False (offset s) 0 0 0 = Some cdh"
    "writeDir e path s = Returned (s\<lparr> dirs := (dirs s)(dirName path := True),
        centralDirHeaders := centralDirHeaders s @ [cdh],
        offset := offset s + length lfh,
        emitted := emitted s @ [Data lfh] \<rparr>)"
proof -
  obtain lfh where 1: "createLocalFileHeader (toBytes e (Text (dirName path))) (date s) False = Some lfh"
    using createLocalFileHeader_Some by blast
  obtain cdh where 2: "createCentralDirHeader (toBytes e (Text (dirName path))) (date s) False (offset s) 0 0 0 = Some cdh"
    using createCentralDirHeader_Some by blast
  have "writeDir e path s = Returned (s\<lparr> dirs := (dirs s)(dirName path := True),
        centralDirHeaders := centralDirHeaders s @ [cdh],
        offset := offset s + length lfh,
        emitted := emitted s @ [Data lfh] \<rparr>)"
    using assms 1 2 by (simp add: writeDir_def trigger_def)
  with 1 2 show thesis by (rule that)
qed

text \<open>
  \<open>writeFile\<close> returns with the entry written, or the compressor throws: then the local
  file header and the chunks handed over are out, and the offset and the pending records
  are as before the call.
\<close>

lemma writeFile_cases:
  obtains (returns) lfh cs dd cdh where
      "createLocalFileHeader (toBytes e (Text path)) (date s) (truthy level) = Some lfh"
      "truthy level \<or> cs = [toBytes e buffer]"
      "createDataDescriptor (crc32 e (toBytes e buffer)) (sum_list (map length cs))
         (length (toBytes e buffer)) = Some dd"
      "createCentralDirHeader (toBytes e (Text path)) (date s) (truthy level) (offset s)
         (length (toBytes e buffer)) (sum_list (map length cs)) (crc32 e (toBytes e buffer)) = Some cdh"
      "writeFile e path buffer level s = Returned (s\<lparr>
          centralDirHeaders := centralDirHeaders s @ [cdh],
          offset := offset s + (length lfh + sum_list (map length cs) + length dd),
          emitted := emitted s @ Data lfh # map Data cs @ [Data dd] \<rparr>)"
  | (throws) lfh cs where
      "truthy level"
      "createLocalFileHeader (toBytes e (Text path)) (date s) (truthy level) = Some lfh"
      "writeFile e path buffer level s
         = Thrown CompressorError (s\<lparr> emitted := emitted s @ Data lfh # map Data cs \<rparr>)"
proof -
  obtain lfh where 1: "createLocalFileHeader (toBytes e (Text path)) (date s) (truthy level) = Some lfh"
    using createLocalFileHeader_Some by blast
  let ?s1 = "trigger (Data lfh) s"
  show thesis
  proof (cases rule: writeContent_cases [where e = e and bs = "toBytes e buffer"
        and level = level and s = ?s1])
    case (completes cs)
    obtain dd where 4: "createDataDescriptor (crc32 e (toBytes e buffer)) (sum_list (map length cs))
         (length (toBytes e buffer)) = Some dd"
      using createDataDescriptor_Some by blast
    obtain cdh where 5: "createCentralDirHeader (toBytes e (Text path)) (date s) (truthy level) (offset s)
         (length (toBytes e buffer)) (sum_list (map length cs)) (crc32 e (toBytes e buffer)) = Some cdh"
      using createCentralDirHeader_Some by blast
    have "writeFile e path buffer level s = Returned (s\<lparr>
          centralDirHeaders := centralDirHeaders s @ [cdh],
          offset := offset s + (length lfh + sum_list (map length cs) + length dd),
          emitted := emitted s @ Data lfh # map Data cs @ [Data dd] \<rparr>)"
      using 1 completes(1) 4 5 by (simp add: writeFile_def trigger_def)
    with 1 completes(2) 4 5 show thesis by (rule returns)
  next
    case (fails cs)
    have "writeFile e path buffer level s
         = Thrown CompressorError (s\<lparr> emitted := emitted s @ Data lfh # map Data cs \<rparr>)"
      using 1 fails(2) by (simp add: writeFile_def trigger_def)
    with fails(1) 1 show thesis by (rule throws)
  qed
qed

lemma writeFile_result:
  assumes "\<not> truthy level"
  obtains lfh dd cdh where
    "createLocalFileHeader (toBytes e (Text path)) (date s) False = Some lfh"
    "createDataDescriptor (crc32 e (toBytes e buffer)) (length (toBytes e buffer))
       (length (toBytes e buffer)) = Some dd"
    "createCentralDirHeader (toBytes e (Text path)) (date s) False (offset s)
       (length (toBytes e buffer)) (length (toBytes e buffer)) (crc32 e (toBytes e buffer)) = Some cdh"
    "writeFile e path buffer level s = Returned (s\<lparr>
        centralDirHeaders := centralDirHeaders s @ [cdh],
        offset := offset s + (length lfh + length (toBytes e buffer) + length dd),
        emitted := emitted s @ [Data lfh, Data (toBytes e buffer), Data dd] \<rparr>)"
proof (cases rule: writeFile_cases [where e = e and path = path and s = s
      and level = level and buffer = buffer])
  case (returns lfh cs dd cdh)
  with assms have "cs = [toBytes e buffer]" by simp
  with returns assms show thesis by (intro that [of lfh dd cdh]) simp_all
next
  case (throws lfh cs)
  with assms show thesis by simp
qed

lemma writeEnd_result:
  obtains endHeader where
    "createEndCentDirHeader (length (centralDirHeaders s))
       (sum_list (map length (centralDirHeaders s))) (offset s) = Some endHeader"
    "writeEnd s = Returned (s\<lparr> emitted :=
        emitted s @ map Data (centralDirHeaders s) @ [Data endHeader, End] \<rparr>)"
proof -
  obtain endHeader where 1: "createEndCentDirHeader (length (centralDirHeaders s))
       (sum_list (map length (centralDirHeaders s))) (offset s) = Some endHeader"
    using createEndCentDirHeader_Some by blast
  have "writeEnd s = Returned (s\<lparr> emitted :=
        emitted s @ map Data (centralDirHeaders s) @ [Data endHeader, End] \<rparr>)"
    using 1 by (simp add: writeEnd_def fold_emitHeader trigger_def)
  with 1 show thesis by (rule that)
qed

subsection \<open>What a call keeps\<close>

lemma advances_refl: "advances s s"
  by (simp add: advances_def)

lemma advances_trans: "advances s t \<Longrightarrow> advances t u \<Longrightarrow> advances s u"
  by (auto simp: advances_def emittedLength_append)

lemma writeDir_advances: "\<exists>t. writeDir e path s = Returned t \<and> advances s t"
proof (cases "dirs s (dirName path)")
  case True
  then show ?thesis by (simp add: writeDir_known advances_refl)
next
  case False
  then obtain lfh cdh where
    "writeDir e path s = Returned (s\<lparr> dirs := (dirs s)(dirName path := True),
        centralDirHeaders := centralDirHeaders s @ [cdh],
        offset := offset s + length lfh,
        emitted := emitted s @ [Data lfh] \<rparr>)"
    by (rule writeDir_fresh)
  then show ?thesis by (simp add: advances_def)
qed

lemma writeFile_advances:
  assumes "writeFile e path buffer level s = Returned t"
  shows "advances s t"
proof (cases rule: writeFile_cases [where e = e and path = path and s = s
      and level = level and buffer = buffer])
  case (returns lfh cs dd cdh)
  with assms show ?thesis
    by (auto simp: advances_def emittedLength_append emittedLength_map_Data)
next
  case (throws lfh cs)
  with assms show ?thesis by simp
qed

lemma reduce_dirs_advances:
  "\<exists>parent' t. reduce_dirs e parent rest s = Returned (parent', t) \<and> advances s t"
proof (induction rest arbitrary: parent s)
  case Nil
  then show ?case by (simp add: advances_refl)
next
  case (Cons child rest)
  obtain t where 1: "writeDir e (parent @ [slash]) s = Returned t" and 2: "advances s t"
    using writeDir_advances by blast
  obtain parent' u where "reduce_dirs e (parent @ [slash] @ child) rest t = Returned (parent', u)"
      and "advances t u"
    using Cons.IH by blast
  with 1 2 show ?case by (auto intro: advances_trans)
qed

lemma split_from_not_Nil: "split_from sep cur cs \<noteq> []"
  by (induction cs arbitrary: cur) simp_all

lemma split_Cons: obtains first rest where "split slash path = first # rest"
  using split_from_not_Nil [of slash "[]" path] by (cases "split slash path") (auto simp: split_def)

lemma writePath_advances:
  assumes "writePath e path buffer level s = Returned t"
  shows "advances s t"
proof -
  obtain first rest where 1: "split slash path = first # rest" by (rule split_Cons)
  obtain parent' u where 2: "reduce_dirs e first rest s = Returned (parent', u)" and 3: "advances s u"
    using reduce_dirs_advances by blast
  from assms 1 2 have "writeFile e path buffer level u = Returned t"
    by (simp add: writePath_def)
  then have "advances u t" by (rule writeFile_advances)
  with 3 show ?thesis by (rule advances_trans)
qed

lemma do_call_advances: "do_call e c s = Returned t \<Longrightarrow> advances s t"
proof (cases c)
  case (WriteDir path)
  assume "do_call e c s = Returned t"
  with WriteDir writeDir_advances [of e path s] show ?thesis by auto
next
  case (WriteFile path buffer level)
  assume "do_call e c s = Returned t"
  with WriteFile show ?thesis by (auto dest: writeFile_advances)
next
  case (Write path buffer level)
  assume "do_call e c s = Returned t"
  with Write show ?thesis by (auto dest: writePath_advances)
qed

lemma andThen_Returned:
  "andThen x f = Returned y \<longleftrightarrow> (\<exists>z. x = Returned z \<and> f z = Returned y)"
  by (cases x) simp_all

lemma do_calls_advances: "do_calls e cs s = Returned t \<Longrightarrow> advances s t"
proof (induction cs arbitrary: s)
  case Nil
  then show ?case by (simp add: advances_refl)
next
  case (Cons c cs)
  then obtain u where "do_call e c s = Returned u" and "do_calls e cs u = Returned t"
    by (auto simp: andThen_Returned)
  then show ?case by (auto intro: advances_trans do_call_advances Cons.IH)
qed

lemma do_calls_append:
  "do_calls e (cs @ cs') s = andThen (do_calls e cs s) (do_calls e cs')"
proof (induction cs arbitrary: s)
  case Nil
  then show ?case by simp
next
  case (Cons c cs)
  then show ?case by (cases "do_call e c s") simp_all
qed

text \<open>The only throw that a method of the engine meets is the compressor's.\<close>

lemma writeFile_outcome:
  "\<exists>t. writeFile e path buffer level s = Returned t
      \<or> writeFile e path buffer level s = Thrown CompressorError t"
  by (cases rule: writeFile_cases [where e = e and path = path and s = s
      and level = level and buffer = buffer]) auto

lemma writePath_outcome:
  "\<exists>t. writePath e path buffer level s = Returned t
      \<or> writePath e path buffer level s = Thrown CompressorError t"
proof -
  obtain first rest where 1: "split slash path = first # rest" by (rule split_Cons)
  obtain parent' u where 2: "reduce_dirs e first rest s = Returned (parent', u)"
    using reduce_dirs_advances by blast
  with 1 writeFile_outcome [of e path buffer level u] show ?thesis
    by (simp add: writePath_def)
qed

lemma do_call_outcome:
  "\<exists>t. do_call e c s = Returned t \<or> do_call e c s = Thrown CompressorError t"
proof (cases c)
  case (WriteDir path)
  with writeDir_advances [of e path s] show ?thesis by auto
next
  case (WriteFile path buffer level)
  with writeFile_outcome [of e path buffer level s] show ?thesis by simp
next
  case (Write path buffer level)
  with writePath_outcome [of e path buffer level s] show ?thesis by simp
qed

lemma do_calls_outcome:
  "\<exists>t. do_calls e cs s = Returned t \<or> do_calls e cs s = Thrown CompressorError t"
proof (induction cs arbitrary: s)
  case Nil
  then show ?case by simp
next
  case (Cons c cs)
  from do_call_outcome [of e c s] Cons.IH show ?case by auto
qed

text \<open>
  Claim C1, as amended. A sequence of calls of \<open>writeDir\<close>, \<open>writeFile\<close> and \<open>write\<close> on
  a new engine either ends in a throw of the compressor, or every call returns. When
  every call returns, the engine's \<open>offset\<close> equals the number of bytes of all chunks
  emitted so far; since every prefix of such a sequence is one, this holds before and
  after each call. A call of \<open>writeEnd\<close> then returns as well: it emits the pending
  central directory records and the end record made from the number of records, their
  total size and \<open>offset\<close>, then the end event, and the bytes emitted in all are
  \<open>offset\<close> (the start of the central directory, as passed to the end record) plus the
  size of the central directory plus 22.
\<close>

theorem running_offset_consistency:
  "(\<exists>s endHeader s'.
      do_calls e cs (new_ZipArchiveWriter params now) = Returned s
    \<and> offset s = emittedLength (emitted s)
    \<and> createEndCentDirHeader (length (centralDirHeaders s))
         (sum_list (map length (centralDirHeaders s))) (offset s) = Some endHeader
    \<and> writeEnd s = Returned s'
    \<and> emitted s' = emitted s @ map Data (centralDirHeaders s) @ [Data endHeader, End]
    \<and> emittedLength (emitted s')
         = offset s + sum_list (map length (centralDirHeaders s)) + 22)
   \<or> (\<exists>t. do_calls e cs (new_ZipArchiveWriter params now) = Thrown CompressorError t)"
proof -
  let ?init = "new_ZipArchiveWriter params now"
  consider s where "do_calls e cs ?init = Returned s"
    | t where "do_calls e cs ?init = Thrown CompressorError t"
    using do_calls_outcome by blast
  then show ?thesis
  proof cases
    case 1
    then have "advances ?init s" by (rule do_calls_advances)
    then have 3: "offset s = emittedLength (emitted s)"
      by (auto simp: advances_def new_ZipArchiveWriter_def)
    obtain endHeader where 4: "createEndCentDirHeader (length (centralDirHeaders s))
         (sum_list (map length (centralDirHeaders s))) (offset s) = Some endHeader"
      and 5: "writeEnd s = Returned (s\<lparr> emitted :=
          emitted s @ map Data (centralDirHeaders s) @ [Data endHeader, End] \<rparr>)"
      by (rule writeEnd_result)
    from 4 have "length endHeader = 22" by (rule createEndCentDirHeader_length)
    with 3 have "emittedLength (emitted (s\<lparr> emitted :=
          emitted s @ map Data (centralDirHeaders s) @ [Data endHeader, End] \<rparr>))
        = offset s + sum_list (map length (centralDirHeaders s)) + 22"
      by (simp add: emittedLength_append emittedLength_map_Data)
    with 1 3 4 5 show ?thesis by auto
  next
    case 2
    then show ?thesis by blast
  qed
qed

text \<open>
  A directory and a stored file on a new engine: both calls return, 32 and then 49
  bytes are emitted, and after \<open>writeEnd\<close> the bytes emitted are 81 plus the size of the
  two records plus 22.
\<close>

theorem running_offset_consistency_witness:
  "\<exists>s s'. do_calls sample [WriteDir (str ''d''), WriteFile (str ''a'') (Text (str ''hi'')) None] fresh
        = Returned s
     \<and> offset s = 81 \<and> emittedLength (emitted s) = 81
     \<and> writeEnd s = Returned s'
     \<and> emittedLength (emitted s') = 81 + sum_list (map length (centralDirHeaders s)) + 22"
proof -
  let ?cs = "[WriteDir (str ''d''), WriteFile (str ''a'') (Text (str ''hi'')) None]"
  have n: "dirName (str ''d'') = str ''d/''"
    by (simp add: dirName_def dirPattern_def str_def slash_def)
  have "\<not> dirs fresh (dirName (str ''d''))"
    by (simp add: fresh_def new_ZipArchiveWriter_def)
  then obtain lfh cdh where
    1: "createLocalFileHeader (toBytes sample (Text (dirName (str ''d'')))) (date fresh) False = Some lfh"
    and 2: "writeDir sample (str ''d'') fresh = Returned (fresh\<lparr> dirs := (dirs fresh)(dirName (str ''d'') := True),
        centralDirHeaders := centralDirHeaders fresh @ [cdh],
        offset := offset fresh + length lfh,
        emitted := emitted fresh @ [Data lfh] \<rparr>)"
    by (rule writeDir_fresh)
  let ?t = "fresh\<lparr> dirs := (dirs fresh)(dirName (str ''d'') := True),
        centralDirHeaders := centralDirHeaders fresh @ [cdh],
        offset := offset fresh + length lfh,
        emitted := emitted fresh @ [Data lfh] \<rparr>"
  from 1 have "length lfh = 30 + length (toBytes sample (Text (dirName (str ''d''))))"
    by (rule createLocalFileHeader_length)
  then have l: "length lfh = 32" unfolding n by (simp add: sample_def str_def)
  have f: "\<not> truthy None" by (simp add: truthy_def)
  obtain lfh' dd cdh' where
    3: "createLocalFileHeader (toBytes sample (Text (str ''a''))) (date ?t) False = Some lfh'"
    and 4: "createDataDescriptor (crc32 sample (toBytes sample (Text (str ''hi''))))
       (length (toBytes sample (Text (str ''hi'')))) (length (toBytes sample (Text (str ''hi'')))) = Some dd"
    and 5: "writeFile sample (str ''a'') (Text (str ''hi'')) None ?t = Returned (?t\<lparr>
        centralDirHeaders := centralDirHeaders ?t @ [cdh'],
        offset := offset ?t + (length lfh' + length (toBytes sample (Text (str ''hi''))) + length dd),
        emitted := emitted ?t @ [Data lfh', Data (toBytes sample (Text (str ''hi''))), Data dd] \<rparr>)"
    by (rule writeFile_result [OF f])
  let ?s = "?t\<lparr>
        centralDirHeaders := centralDirHeaders ?t @ [cdh'],
        offset := offset ?t + (length lfh' + length (toBytes sample (Text (str ''hi''))) + length dd),
        emitted := emitted ?t @ [Data lfh', Data (toBytes sample (Text (str ''hi''))), Data dd] \<rparr>"
  from 3 have "length lfh' = 30 + length (toBytes sample (Text (str ''a'')))"
    by (rule createLocalFileHeader_length)
  then have l': "length lfh' = 31" by (simp add: sample_def str_def)
  from 4 have l'': "length dd = 16" by (rule createDataDescriptor_length)
  have h: "length (toBytes sample (Text (str ''hi''))) = 2" by (simp add: sample_def str_def)
  have r: "do_calls sample ?cs (new_ZipArchiveWriter noParams someDate) = Returned ?s"
    using 2 5 by (simp add: fresh_def)
  have o: "offset ?s = 81"
    by (simp add: l l' l'' h) (simp add: fresh_def new_ZipArchiveWriter_def)
  from running_offset_consistency [of sample ?cs noParams someDate] r o
  obtain s' where "emittedLength (emitted ?s) = 81" "writeEnd ?s = Returned s'"
    "emittedLength (emitted s') = 81 + sum_list (map length (centralDirHeaders ?s)) + 22"
    by auto
  with r o show ?thesis unfolding fresh_def by blast
qed

text \<open>
  Claim C1 as stated fails on a call that throws: \<open>writeFile("a", "hello", 10)\<close> on a new
  engine emits the local file header, 31 bytes, then the compressor refuses the level
  and the call ends there: the engine's \<open>offset\<close> is still 0.
\<close>

theorem offset_behind_after_compressor_throw:
  "\<exists>t lfh. writeFile sample (str ''a'') (Text (str ''hello'')) (Some 10) fresh
       = Thrown CompressorError t
     \<and> emitted t = [Data lfh] \<and> emittedLength (emitted t) = 31 \<and> offset t = 0"
proof -
  have "writeContent sample bs (Some 10) s = Thrown CompressorError s" for bs s
    by (simp add: writeContent_def sample_def)
  moreover obtain lfh where
    1: "createLocalFileHeader (toBytes sample (Text (str ''a''))) (date fresh) (truthy (Some 10)) = Some lfh"
    using createLocalFileHeader_Some by blast
  ultimately have 2: "writeFile sample (str ''a'') (Text (str ''hello'')) (Some 10) fresh
      = Thrown CompressorError (fresh\<lparr> emitted := emitted fresh @ [Data lfh] \<rparr>)"
    by (simp add: writeFile_def trigger_def)
  from 1 have "length lfh = 30 + length (toBytes sample (Text (str ''a'')))"
    by (rule createLocalFileHeader_length)
  then have "length lfh = 31" by (simp add: sample_def str_def)
  with 2 show ?thesis by (simp add: fresh_def new_ZipArchiveWriter_def)
qed

subsection \<open>Invariants of sequences of calls\<close>

text \<open>
  What \<open>writeDir\<close> and \<open>writeFile\<close> keep when they return, every sequence of calls that
  return keeps: \<open>write\<close> only calls the two.
\<close>

lemma do_calls_invariant:
  assumes dir: "\<And>path s t. P s \<Longrightarrow> writeDir e path s = Returned t \<Longrightarrow> P t"
    and fil: "\<And>path buffer level s t. P s \<Longrightarrow> writeFile e path buffer level s = Returned t \<Longrightarrow> P t"
  shows "P s \<Longrightarrow> do_calls e cs s = Returned t \<Longrightarrow> P t"
proof (induction cs arbitrary: s)
  case Nil
  then show ?case by simp
next
  case (Cons c cs)
  have red: "P s \<Longrightarrow> reduce_dirs e parent rest s = Returned (parent', u) \<Longrightarrow> P u"
    for parent rest s parent' u
  proof (induction rest arbitrary: parent s)
    case Nil
    then show ?case by simp
  next
    case (Cons child rest)
    then show ?case by (auto simp: andThen_Returned dest: dir)
  qed
  have path: "P s \<Longrightarrow> writePath e p b l s = Returned u \<Longrightarrow> P u" for p b l s u
    by (auto simp: writePath_def andThen_Returned split: list.splits dest: red fil)
  from Cons.prems obtain u where 1: "do_call e c s = Returned u" and 2: "do_calls e cs u = Returned t"
    by (auto simp: andThen_Returned)
  from 1 Cons.prems(1) have "P u"
    by (cases c) (auto dest: dir fil path)
  with 2 show ?case by (rule Cons.IH [rotated])
qed

subsection \<open>The end record\<close>

text \<open>
  Claim C10. \<open>writeEnd\<close> returns; the last chunk it emits is the end record, and the two
  entry counts of that record, read as 16-bit little-endian values at bytes 8 and 10, are
  both the number of pending central directory records modulo \<open>2^16\<close>: nothing fails
  from 65536 entries on, the counts wrap.
\<close>

theorem end_record_counts_16_bit:
  "\<exists>endHeader s'. writeEnd s = Returned s'
     \<and> emitted s' = emitted s @ map Data (centralDirHeaders s) @ [Data endHeader, End]
     \<and> getUint16 endHeader 8 = length (centralDirHeaders s) mod 2 ^ 16
     \<and> getUint16 endHeader 10 = length (centralDirHeaders s) mod 2 ^ 16"
proof -
  obtain endHeader where 1: "createEndCentDirHeader (length (centralDirHeaders s))
       (sum_list (map length (centralDirHeaders s))) (offset s) = Some endHeader"
    and 2: "writeEnd s = Returned (s\<lparr> emitted :=
        emitted s @ map Data (centralDirHeaders s) @ [Data endHeader, End] \<rparr>)"
    by (rule writeEnd_result)
  from 1 have "getUint16 endHeader 8 = length (centralDirHeaders s) mod 2 ^ 16"
    and "getUint16 endHeader 10 = length (centralDirHeaders s) mod 2 ^ 16"
    by (rule createEndCentDirHeader_count_disk, rule createEndCentDirHeader_count_total)
  with 2 show ?thesis by auto
qed

lemma do_calls_replicate_WriteFile:
  assumes "\<not> truthy level"
  shows "\<exists>t. do_calls e (replicate n (WriteFile path buffer level)) s = Returned t
     \<and> length (centralDirHeaders t) = length (centralDirHeaders s) + n"
proof (induction n arbitrary: s)
  case 0
  then show ?case by simp
next
  case (Suc n)
  obtain lfh dd cdh where 1: "writeFile e path buffer level s = Returned (s\<lparr>
        centralDirHeaders := centralDirHeaders s @ [cdh],
        offset := offset s + (length lfh + length (toBytes e buffer) + length dd),
        emitted := emitted s @ [Data lfh, Data (toBytes e buffer), Data dd] \<rparr>)"
    by (rule writeFile_result [OF assms])
  let ?u = "s\<lparr> centralDirHeaders := centralDirHeaders s @ [cdh],
        offset := offset s + (length lfh + length (toBytes e buffer) + length dd),
        emitted := emitted s @ [Data lfh, Data (toBytes e buffer), Data dd] \<rparr>"
  obtain t where "do_calls e (replicate n (WriteFile path buffer level)) ?u = Returned t"
    and "length (centralDirHeaders t) = length (centralDirHeaders ?u) + n"
    using Suc.IH by blast
  with 1 show ?case by simp
qed

text \<open>
  Claim C8, as amended. After any sequence of calls on a new engine that all return,
  \<open>writeEnd\<close> returns, and the two entry counts of the end record it emits are both the
  number of pending central directory records modulo \<open>2^16\<close>: that number itself when
  it is below 65536 (none included), and from 65536 records on what is left of it after
  the wrap.
\<close>

theorem end_record_counts_of_pending_list:
  assumes "do_calls e cs (new_ZipArchiveWriter params now) = Returned s"
  shows "\<exists>endHeader s'. writeEnd s = Returned s'
     \<and> emitted s' = emitted s @ map Data (centralDirHeaders s) @ [Data endHeader, End]
     \<and> getUint16 endHeader 8 = length (centralDirHeaders s) mod 65536
     \<and> getUint16 endHeader 10 = length (centralDirHeaders s) mod 65536
     \<and> (65536 \<le> length (centralDirHeaders s)
         \<or> getUint16 endHeader 8 = length (centralDirHeaders s)
           \<and> getUint16 endHeader 10 = length (centralDirHeaders s))"
proof -
  obtain endHeader where 1: "createEndCentDirHeader (length (centralDirHeaders s))
       (sum_list (map length (centralDirHeaders s))) (offset s) = Some endHeader"
    and 2: "writeEnd s = Returned (s\<lparr> emitted :=
        emitted s @ map Data (centralDirHeaders s) @ [Data endHeader, End] \<rparr>)"
    by (rule writeEnd_result)
  from 1 have "getUint16 endHeader 8 = length (centralDirHeaders s) mod 65536"
    and "getUint16 endHeader 10 = length (centralDirHeaders s) mod 65536"
    by (simp_all add: createEndCentDirHeader_count_disk createEndCentDirHeader_count_total)
  moreover have "65536 \<le> n \<or> n mod 65536 = n" for n :: nat
    by (cases "n < 65536") simp_all
  ultimately show ?thesis using 2 by auto
qed

text \<open>Three stored files on a new engine: three pending records, and both counts are 3.\<close>

theorem end_record_counts_of_pending_list_witness:
  "\<exists>s endHeader s'.
      do_calls sample (replicate 3 (WriteFile (str ''f'') (Text (str ''hi'')) None)) fresh = Returned s
    \<and> length (centralDirHeaders s) = 3
    \<and> writeEnd s = Returned s'
    \<and> emitted s' = emitted s @ map Data (centralDirHeaders s) @ [Data endHeader, End]
    \<and> getUint16 endHeader 8 = 3
    \<and> getUint16 endHeader 10 = 3"
proof -
  have f: "\<not> truthy None" by (simp add: truthy_def)
  obtain s where 1: "do_calls sample (replicate 3 (WriteFile (str ''f'') (Text (str ''hi'')) None))
        (new_ZipArchiveWriter noParams someDate) = Returned s"
    and 2: "length (centralDirHeaders s) = length (centralDirHeaders (new_ZipArchiveWriter noParams someDate)) + 3"
    using do_calls_replicate_WriteFile [OF f] by blast
  from 2 have 3: "length (centralDirHeaders s) = 3"
    by (simp add: new_ZipArchiveWriter_def)
  from end_record_counts_of_pending_list [OF 1] 3
  obtain endHeader s' where "writeEnd s = Returned s'"
    "emitted s' = emitted s @ map Data (centralDirHeaders s) @ [Data endHeader, End]"
    "getUint16 endHeader 8 = 3" "getUint16 endHeader 10 = 3"
    by auto
  with 1 3 show ?thesis unfolding fresh_def by blast
qed

text \<open>
  Claim C8 as stated fails from 65536 entries on: after 65536 calls of \<open>writeFile\<close> the
  list holds 65536 records and both counts of the end record are 0.
\<close>

theorem end_record_counts_wrap_at_65536:
  "\<exists>s endHeader s'.
      do_calls sample (replicate 65536 (WriteFile (str ''f'') (Binary []) None)) fresh = Returned s
    \<and> length (centralDirHeaders s) = 65536
    \<and> writeEnd s = Returned s'
    \<and> emitted s' = emitted s @ map Data (centralDirHeaders s) @ [Data endHeader, End]
    \<and> getUint16 endHeader 8 = 0
    \<and> getUint16 endHeader 10 = 0"
proof -
  have f: "\<not> truthy None" by (simp add: truthy_def)
  obtain s where 1: "do_calls sample (replicate 65536 (WriteFile (str ''f'') (Binary []) None)) fresh = Returned s"
    and 2: "length (centralDirHeaders s) = length (centralDirHeaders fresh) + 65536"
    using do_calls_replicate_WriteFile [OF f] by blast
  from 2 have 3: "length (centralDirHeaders s) = 65536"
    by (simp add: fresh_def new_ZipArchiveWriter_def)
  obtain endHeader where 4: "createEndCentDirHeader (length (centralDirHeaders s))
       (sum_list (map length (centralDirHeaders s))) (offset s) = Some endHeader"
    and 5: "writeEnd s = Returned (s\<lparr> emitted :=
        emitted s @ map Data (centralDirHeaders s) @ [Data endHeader, End] \<rparr>)"
    by (rule writeEnd_result)
  from 4 3 have "getUint16 endHeader 8 = 0" and "getUint16 endHeader 10 = 0"
    by (simp_all add: createEndCentDirHeader_count_disk createEndCentDirHeader_count_total)
  with 1 3 5 show ?thesis by auto
qed

subsection \<open>Stored files\<close>

text \<open>
  Claim C7. A call of \<open>writeFile\<close> with level 0 or without a level returns and emits
  three chunks: the local file header (method stored), the bytes of the content
  unchanged, and the data descriptor. In the descriptor and in the central directory
  record it appends, the compressed size and the uncompressed size are the same value,
  the number of bytes of the content (as the 32 bits of the fields hold it).
\<close>

theorem stored_round_trip:
  assumes "level = None \<or> level = Some 0"
  shows "\<exists>lfh dd cdh t.
      writeFile e path buffer level s = Returned t
    \<and> createLocalFileHeader (toBytes e (Text path)) (date s) False = Some lfh
    \<and> emitted t = emitted s @ [Data lfh, Data (toBytes e buffer), Data dd]
    \<and> centralDirHeaders t = centralDirHeaders s @ [cdh]
    \<and> getUint32 dd 8 = length (toBytes e buffer) mod 2 ^ 32
    \<and> getUint32 dd 12 = length (toBytes e buffer) mod 2 ^ 32
    \<and> getUint32 cdh 20 = length (toBytes e buffer) mod 2 ^ 32
    \<and> getUint32 cdh 24 = length (toBytes e buffer) mod 2 ^ 32"
proof -
  from assms have f: "\<not> truthy level" by (auto simp: truthy_def)
  obtain lfh dd cdh where
    1: "createLocalFileHeader (toBytes e (Text path)) (date s) False = Some lfh"
    and 3: "createDataDescriptor (crc32 e (toBytes e buffer)) (length (toBytes e buffer))
       (length (toBytes e buffer)) = Some dd"
    and 4: "createCentralDirHeader (toBytes e (Text path)) (date s) False (offset s)
       (length (toBytes e buffer)) (length (toBytes e buffer)) (crc32 e (toBytes e buffer)) = Some cdh"
    and 5: "writeFile e path buffer level s = Returned (s\<lparr>
        centralDirHeaders := centralDirHeaders s @ [cdh],
        offset := offset s + (length lfh + length (toBytes e buffer) + length dd),
        emitted := emitted s @ [Data lfh, Data (toBytes e buffer), Data dd] \<rparr>)"
    by (rule writeFile_result [OF f])
  from 3 have "getUint32 dd 8 = length (toBytes e buffer) mod 2 ^ 32"
    by (rule createDataDescriptor_compressedSize)
  moreover from 3 have "getUint32 dd 12 = length (toBytes e buffer) mod 2 ^ 32"
    by (rule createDataDescriptor_uncompressedSize)
  moreover from 4 have "getUint32 cdh 20 = length (toBytes e buffer) mod 2 ^ 32"
    by (rule createCentralDirHeader_compressedSize)
  moreover from 4 have "getUint32 cdh 24 = length (toBytes e buffer) mod 2 ^ 32"
    by (rule createCentralDirHeader_uncompressedSize)
  ultimately show ?thesis using 1 5 by simp
qed

text \<open>The file \<open>a.txt\<close> with the content \<open>hi\<close> at level 0, on a new engine.\<close>

theorem stored_round_trip_witness:
  "\<exists>lfh dd cdh t.
      writeFile sample (str ''a.txt'') (Text (str ''hi'')) (Some 0) fresh = Returned t
    \<and> createLocalFileHeader [97, 46, 116, 120, 116] someDate False = Some lfh
    \<and> emitted t = [Data lfh, Data [104, 105], Data dd]
    \<and> centralDirHeaders t = [cdh]
    \<and> getUint32 dd 8 = 2 \<and> getUint32 dd 12 = 2
    \<and> getUint32 cdh 20 = 2 \<and> getUint32 cdh 24 = 2"
proof -
  have a: "toBytes sample (Text (str ''a.txt'')) = [97, 46, 116, 120, 116]"
    "toBytes sample (Text (str ''hi'')) = [104, 105]"
    by (simp_all add: sample_def str_def)
  have b: "emitted fresh = []" "centralDirHeaders fresh = []" "date fresh = someDate"
    by (simp_all add: fresh_def new_ZipArchiveWriter_def)
  have "Some 0 = None \<or> Some 0 = Some (0 :: int)" by simp
  from stored_round_trip [OF this, of sample "str ''a.txt''" "Text (str ''hi'')" fresh]
  obtain lfh dd cdh t where
    "writeFile sample (str ''a.txt'') (Text (str ''hi'')) (Some 0) fresh = Returned t"
    "createLocalFileHeader [97, 46, 116, 120, 116] someDate False = Some lfh"
    "emitted t = [Data lfh, Data [104, 105], Data dd]"
    "centralDirHeaders t = [cdh]"
    "getUint32 dd 8 = 2" "getUint32 dd 12 = 2" "getUint32 cdh 20 = 2" "getUint32 cdh 24 = 2"
    unfolding a b by auto
  then show ?thesis by blast
qed

subsection \<open>One date for all records\<close>

lemma writeDir_stamps:
  assumes "date s = now \<and> list_all (centralStamp now) (centralDirHeaders s)"
  shows "\<exists>t. writeDir e path s = Returned t
      \<and> (emitted t = emitted s \<or> (\<exists>h. emitted t = emitted s @ [Data h] \<and> localStamp now h))
      \<and> date t = now \<and> list_all (centralStamp now) (centralDirHeaders t)"
proof (cases "dirs s (dirName path)")
  case True
  with assms show ?thesis by (simp add: writeDir_known)
next
  case False
  then obtain lfh cdh where
    1: "createLocalFileHeader (toBytes e (Text (dirName path))) (date s) False = Some lfh"
    and 2: "createCentralDirHeader (toBytes e (Text (dirName path))) (date s) False (offset s) 0 0 0 = Some cdh"
    and 3: "writeDir e path s = Returned (s\<lparr> dirs := (dirs s)(dirName path := True),
        centralDirHeaders := centralDirHeaders s @ [cdh],
        offset := offset s + length lfh,
        emitted := emitted s @ [Data lfh] \<rparr>)"
    by (rule writeDir_fresh)
  from 1 assms have "localStamp now lfh"
    by (simp add: localStamp_def createLocalFileHeader_time createLocalFileHeader_date)
  moreover from 2 assms have "centralStamp now cdh"
    by (simp add: centralStamp_def createCentralDirHeader_time createCentralDirHeader_date)
  ultimately show ?thesis using 3 assms by simp
qed

lemma writeFile_stamps:
  assumes "date s = now \<and> list_all (centralStamp now) (centralDirHeaders s)"
  shows "\<exists>t h rest.
        (writeFile e path buffer level s = Returned t
         \<or> writeFile e path buffer level s = Thrown CompressorError t)
      \<and> emitted t = emitted s @ Data h # rest \<and> localStamp now h
      \<and> date t = now \<and> list_all (centralStamp now) (centralDirHeaders t)"
proof (cases rule: writeFile_cases [where e = e and path = path and s = s
      and level = level and buffer = buffer])
  case (returns lfh cs dd cdh)
  from returns(1) assms have "localStamp now lfh"
    by (simp add: localStamp_def createLocalFileHeader_time createLocalFileHeader_date)
  moreover from returns(4) assms have "centralStamp now cdh"
    by (simp add: centralStamp_def createCentralDirHeader_time createCentralDirHeader_date)
  ultimately show ?thesis using returns(5) assms by simp
next
  case (throws lfh cs)
  from throws(2) assms have "localStamp now lfh"
    by (simp add: localStamp_def createLocalFileHeader_time createLocalFileHeader_date)
  then show ?thesis using throws(3) assms by simp
qed

text \<open>
  Claim C9. The engine reached from a new one by any sequence of calls that return still
  holds the date read at construction, and every pending central directory record
  encodes that date in its time and date fields. Whatever call comes next, \<open>writeDir\<close>
  or \<open>writeFile\<close>, the local file header it emits (the first chunk of the call, if it
  emits one) and the central directory record it appends encode that same date: no
  record carries the time of its own write. That holds as well for the header of a
  \<open>writeFile\<close> in which the compressor throws.
\<close>

theorem one_date_for_all_records:
  assumes "do_calls e cs (new_ZipArchiveWriter params now) = Returned s"
  shows "date s = now
    \<and> list_all (centralStamp now) (centralDirHeaders s)
    \<and> (\<exists>t. writeDir e path s = Returned t
          \<and> (emitted t = emitted s
              \<or> (\<exists>h. emitted t = emitted s @ [Data h] \<and> localStamp now h))
          \<and> list_all (centralStamp now) (centralDirHeaders t))
    \<and> (\<exists>t h rest.
            (writeFile e path' buffer level s = Returned t
             \<or> writeFile e path' buffer level s = Thrown CompressorError t)
          \<and> emitted t = emitted s @ Data h # rest \<and> localStamp now h
          \<and> list_all (centralStamp now) (centralDirHeaders t))"
proof -
  let ?P = "\<lambda>s. date s = now \<and> list_all (centralStamp now) (centralDirHeaders s)"
  have "?P (new_ZipArchiveWriter params now)"
    by (simp add: new_ZipArchiveWriter_def)
  moreover have "?P s \<Longrightarrow> writeDir e p s = Returned t \<Longrightarrow> ?P t" for p s t
    using writeDir_stamps [of s now e p] by auto
  moreover have "?P s \<Longrightarrow> writeFile e p b l s = Returned t \<Longrightarrow> ?P t" for p b l s t
    using writeFile_stamps [of s now e p b l] by auto
  ultimately have inv: "?P s"
    using assms do_calls_invariant [of ?P e "new_ZipArchiveWriter params now" cs s] by blast
  show ?thesis
    using inv writeDir_stamps [OF inv, of e path] writeFile_stamps [OF inv, of e path' buffer level]
    by blast
qed

text \<open>The two packed fields of the sample date.\<close>

lemma someDate_fields:
  "nat (createDosFileTime someDate mod 65536) = 25541"
  "nat (createDosFileDate someDate mod 65536) = 20515"
  by (simp_all add: createDosFileTime_def createDosFileDate_def someDate_def)

text \<open>After \<open>writeDir("a")\<close> on a new engine, the header of a file \<open>b\<close> carries the sample date.\<close>

theorem one_date_for_all_records_witness:
  "\<exists>s. do_calls sample [WriteDir (str ''a'')] fresh = Returned s
     \<and> date s = someDate
     \<and> list_all (centralStamp someDate) (centralDirHeaders s)
     \<and> (\<exists>t h rest. writeFile sample (str ''b'') (Text (str ''hi'')) None s = Returned t
           \<and> emitted t = emitted s @ Data h # rest
           \<and> getUint16 h 10 = 25541 \<and> getUint16 h 12 = 20515)"
proof -
  obtain s where 1: "do_calls sample [WriteDir (str ''a'')] (new_ZipArchiveWriter noParams someDate) = Returned s"
    using writeDir_advances [of sample "str ''a''" "new_ZipArchiveWriter noParams someDate"] by auto
  have f: "\<not> truthy None" by (simp add: truthy_def)
  obtain u where r: "writeFile sample (str ''b'') (Text (str ''hi'')) None s = Returned u"
    using writeFile_result [OF f, of sample "str ''b''" s "Text (str ''hi'')"] by blast
  from one_date_for_all_records [OF 1, of "str ''a''" "str ''b''" "Text (str ''hi'')" None] r
  obtain t h rest where "date s = someDate"
    "list_all (centralStamp someDate) (centralDirHeaders s)"
    "writeFile sample (str ''b'') (Text (str ''hi'')) None s = Returned t"
    "emitted t = emitted s @ Data h # rest" "localStamp someDate h"
    by auto
  with 1 show ?thesis
    by (auto simp: localStamp_def someDate_fields fresh_def)
qed

subsection \<open>The offset of the local header\<close>

lemma dirName_str_d: "dirName (str ''d'') = str ''d/''"
  by (simp add: dirName_def dirPattern_def str_def slash_def)

lemma writeFile_stored_offset:
  assumes "\<not> truthy level"
  shows "\<exists>t. writeFile e path buffer level s = Returned t
     \<and> offset t = offset s + 46 + length (toBytes e (Text path)) + length (toBytes e buffer)
     \<and> dirs t = dirs s"
proof -
  obtain lfh dd cdh where
    1: "createLocalFileHeader (toBytes e (Text path)) (date s) False = Some lfh"
    and 3: "createDataDescriptor (crc32 e (toBytes e buffer)) (length (toBytes e buffer))
       (length (toBytes e buffer)) = Some dd"
    and 5: "writeFile e path buffer level s = Returned (s\<lparr>
        centralDirHeaders := centralDirHeaders s @ [cdh],
        offset := offset s + (length lfh + length (toBytes e buffer) + length dd),
        emitted := emitted s @ [Data lfh, Data (toBytes e buffer), Data dd] \<rparr>)"
    by (rule writeFile_result [OF assms])
  from 1 have "length lfh = 30 + length (toBytes e (Text path))"
    by (rule createLocalFileHeader_length)
  moreover from 3 have "length dd = 16" by (rule createDataDescriptor_length)
  ultimately show ?thesis using 5 by simp
qed

text \<open>
  Claim C4, as amended. On the engine reached from a new one by any sequence of calls
  that return, \<open>offset\<close> is the number of bytes emitted so far, that is the position in
  the stream at which the next local file header begins. A call of \<open>writeDir\<close> that adds
  an entry, and every call of \<open>writeFile\<close> that returns, emits the entry's local file
  header first and appends one central directory record whose field at byte 42, the
  offset of the local header, holds that \<open>offset\<close> modulo \<open>2^32\<close>: the offset itself
  whenever it is below \<open>2^32\<close>. A call of \<open>writeFile\<close> in which the compressor throws
  adds no entry: it appends no record.
\<close>

theorem central_record_offset_field:
  assumes "do_calls e cs (new_ZipArchiveWriter params now) = Returned s"
  shows "offset s = emittedLength (emitted s)
    \<and> (\<exists>t. writeDir e path s = Returned t
          \<and> (dirs s (dirName path) \<and> t = s
              \<or> (\<exists>lfh cdh. emitted t = emitted s @ [Data lfh]
                    \<and> centralDirHeaders t = centralDirHeaders s @ [cdh]
                    \<and> getUint32 cdh 42 = offset s mod 2 ^ 32)))
    \<and> (\<exists>t lfh rest. emitted t = emitted s @ Data lfh # rest
          \<and> (writeFile e path' buffer level s = Returned t
                \<and> (\<exists>cdh. centralDirHeaders t = centralDirHeaders s @ [cdh]
                      \<and> getUint32 cdh 42 = offset s mod 2 ^ 32)
              \<or> writeFile e path' buffer level s = Thrown CompressorError t
                \<and> centralDirHeaders t = centralDirHeaders s))"
proof -
  have "advances (new_ZipArchiveWriter params now) s"
    using assms by (rule do_calls_advances)
  then have a: "offset s = emittedLength (emitted s)"
    by (auto simp: advances_def new_ZipArchiveWriter_def)
  have b: "\<exists>t. writeDir e path s = Returned t
          \<and> (dirs s (dirName path) \<and> t = s
              \<or> (\<exists>lfh cdh. emitted t = emitted s @ [Data lfh]
                    \<and> centralDirHeaders t = centralDirHeaders s @ [cdh]
                    \<and> getUint32 cdh 42 = offset s mod 2 ^ 32))"
  proof (cases "dirs s (dirName path)")
    case True
    then show ?thesis by (simp add: writeDir_known)
  next
    case False
    then obtain lfh cdh where
      2: "createCentralDirHeader (toBytes e (Text (dirName path))) (date s) False (offset s) 0 0 0 = Some cdh"
      and 3: "writeDir e path s = Returned (s\<lparr> dirs := (dirs s)(dirName path := True),
          centralDirHeaders := centralDirHeaders s @ [cdh],
          offset := offset s + length lfh,
          emitted := emitted s @ [Data lfh] \<rparr>)"
      by (rule writeDir_fresh)
    from 2 have "getUint32 cdh 42 = offset s mod 2 ^ 32"
      by (rule createCentralDirHeader_fileOffset)
    with 3 show ?thesis by simp
  qed
  have c: "\<exists>t lfh rest. emitted t = emitted s @ Data lfh # rest
          \<and> (writeFile e path' buffer level s = Returned t
                \<and> (\<exists>cdh. centralDirHeaders t = centralDirHeaders s @ [cdh]
                      \<and> getUint32 cdh 42 = offset s mod 2 ^ 32)
              \<or> writeFile e path' buffer level s = Thrown CompressorError t
                \<and> centralDirHeaders t = centralDirHeaders s)"
  proof (cases rule: writeFile_cases [where e = e and path = path' and s = s
      and level = level and buffer = buffer])
    case (returns lfh cs dd cdh)
    from returns(4) have "getUint32 cdh 42 = offset s mod 2 ^ 32"
      by (rule createCentralDirHeader_fileOffset)
    with returns(5) show ?thesis
      by (intro exI [of _ "s\<lparr>
          centralDirHeaders := centralDirHeaders s @ [cdh],
          offset := offset s + (length lfh + sum_list (map length cs) + length dd),
          emitted := emitted s @ Data lfh # map Data cs @ [Data dd] \<rparr>"]
          exI [of _ lfh] exI [of _ "map Data cs @ [Data dd]"]) simp
  next
    case (throws lfh cs)
    from throws(3) show ?thesis
      by (intro exI [of _ "s\<lparr> emitted := emitted s @ Data lfh # map Data cs \<rparr>"]
          exI [of _ lfh] exI [of _ "map Data cs"]) simp
  qed
  from a b c show ?thesis by blast
qed

text \<open>After a file of 49 bytes in all, the record of a new directory holds the offset 49.\<close>

theorem central_record_offset_field_witness:
  "\<exists>s. do_calls sample [WriteFile (str ''a'') (Text (str ''hi'')) None] fresh = Returned s
     \<and> offset s = 49 \<and> emittedLength (emitted s) = 49
     \<and> (\<exists>t lfh cdh. writeDir sample (str ''d'') s = Returned t
           \<and> emitted t = emitted s @ [Data lfh]
           \<and> centralDirHeaders t = centralDirHeaders s @ [cdh]
           \<and> getUint32 cdh 42 = 49)"
proof -
  have n: "\<not> truthy None" by (simp add: truthy_def)
  obtain s where 1: "writeFile sample (str ''a'') (Text (str ''hi'')) None fresh = Returned s"
    and 2: "offset s = offset fresh + 46 + length (toBytes sample (Text (str ''a'')))
              + length (toBytes sample (Text (str ''hi'')))"
    and 3: "dirs s = dirs fresh"
    using writeFile_stored_offset [OF n] by blast
  from 2 have o: "offset s = 49"
    by (simp add: fresh_def new_ZipArchiveWriter_def sample_def str_def)
  from 3 have d: "\<not> dirs s (dirName (str ''d''))"
    by (simp add: fresh_def new_ZipArchiveWriter_def)
  from 1 have "do_calls sample [WriteFile (str ''a'') (Text (str ''hi'')) None]
      (new_ZipArchiveWriter noParams someDate) = Returned s"
    by (simp add: fresh_def)
  from central_record_offset_field [OF this, of "str ''d''" "str ''e''" "Binary []" None] d o
  obtain t lfh cdh where "emittedLength (emitted s) = 49"
    "writeDir sample (str ''d'') s = Returned t" "emitted t = emitted s @ [Data lfh]"
    "centralDirHeaders t = centralDirHeaders s @ [cdh]" "getUint32 cdh 42 = 49"
    by auto
  with 1 o show ?thesis by auto
qed

text \<open>
  Claim C4 as stated fails beyond 4 GiB: after two stored files of \<open>2^31\<close> bytes each the
  offset is 4294967390, and the record of the directory written next holds 94.
\<close>

theorem central_record_offset_wraps:
  "\<exists>s t cdh.
      do_calls sample [WriteFile (str ''f'') (Binary (replicate 2147483648 0)) None,
                       WriteFile (str ''g'') (Binary (replicate 2147483648 0)) None] fresh = Returned s
    \<and> offset s = 4294967390
    \<and> writeDir sample (str ''d'') s = Returned t
    \<and> centralDirHeaders t = centralDirHeaders s @ [cdh]
    \<and> getUint32 cdh 42 = 94"
proof -
  have n: "\<not> truthy None" by (simp add: truthy_def)
  obtain s1 where 1: "writeFile sample (str ''f'') (Binary (replicate 2147483648 0)) None fresh = Returned s1"
    and 2: "offset s1 = offset fresh + 46 + length (toBytes sample (Text (str ''f'')))
              + length (toBytes sample (Binary (replicate 2147483648 0)))"
    and 3: "dirs s1 = dirs fresh"
    using writeFile_stored_offset [OF n] by blast
  obtain s where 4: "writeFile sample (str ''g'') (Binary (replicate 2147483648 0)) None s1 = Returned s"
    and 5: "offset s = offset s1 + 46 + length (toBytes sample (Text (str ''g'')))
              + length (toBytes sample (Binary (replicate 2147483648 0)))"
    and 6: "dirs s = dirs s1"
    using writeFile_stored_offset [OF n] by blast
  from 2 5 have o: "offset s = 4294967390"
    by (simp add: fresh_def new_ZipArchiveWriter_def sample_def str_def)
  from 3 6 have "\<not> dirs s (dirName (str ''d''))"
    by (simp add: fresh_def new_ZipArchiveWriter_def)
  then obtain lfh cdh where
    7: "createCentralDirHeader (toBytes sample (Text (dirName (str ''d'')))) (date s) False (offset s) 0 0 0 = Some cdh"
    and 8: "writeDir sample (str ''d'') s = Returned (s\<lparr> dirs := (dirs s)(dirName (str ''d'') := True),
        centralDirHeaders := centralDirHeaders s @ [cdh],
        offset := offset s + length lfh,
        emitted := emitted s @ [Data lfh] \<rparr>)"
    by (rule writeDir_fresh)
  from 7 have "getUint32 cdh 42 = offset s mod 2 ^ 32"
    by (rule createCentralDirHeader_fileOffset)
  then have "getUint32 cdh 42 = 94" by (simp add: o)
  with 1 4 8 o show ?thesis by simp
qed

subsection \<open>Calls after \<open>writeEnd\<close>\<close>

text \<open>
  No method reads the events emitted so far: on an engine that differs only in them, a
  call has the same outcome, with the same engine and the same events emitted.
\<close>

lemma writeDir_frame:
  "\<exists>t evs. writeDir e path s = Returned t \<and> emitted t = emitted s @ evs
     \<and> (\<forall>X. writeDir e path (s\<lparr> emitted := X \<rparr>) = Returned (t\<lparr> emitted := X @ evs \<rparr>))"
proof (cases "dirs s (dirName path)")
  case True
  then show ?thesis by (simp add: writeDir_def)
next
  case False
  then obtain lfh cdh where
    1: "createLocalFileHeader (toBytes e (Text (dirName path))) (date s) False = Some lfh"
    and 2: "createCentralDirHeader (toBytes e (Text (dirName path))) (date s) False (offset s) 0 0 0 = Some cdh"
    and 3: "writeDir e path s = Returned (s\<lparr> dirs := (dirs s)(dirName path := True),
        centralDirHeaders := centralDirHeaders s @ [cdh],
        offset := offset s + length lfh,
        emitted := emitted s @ [Data lfh] \<rparr>)"
    by (rule writeDir_fresh)
  have "writeDir e path (s\<lparr> emitted := X \<rparr>)
      = Returned (s\<lparr> dirs := (dirs s)(dirName path := True),
        centralDirHeaders := centralDirHeaders s @ [cdh],
        offset := offset s + length lfh,
        emitted := X @ [Data lfh] \<rparr>)" for X
    using False 1 2 by (simp add: writeDir_def trigger_def)
  with 3 show ?thesis by simp
qed

lemma writeFile_frame:
  "\<exists>t evs. emitted t = emitted s @ evs
     \<and> (writeFile e path buffer level s = Returned t
          \<and> (\<forall>X. writeFile e path buffer level (s\<lparr> emitted := X \<rparr>)
                   = Returned (t\<lparr> emitted := X @ evs \<rparr>))
        \<or> writeFile e path buffer level s = Thrown CompressorError t
          \<and> (\<forall>X. writeFile e path buffer level (s\<lparr> emitted := X \<rparr>)
                   = Thrown CompressorError (t\<lparr> emitted := X @ evs \<rparr>)))"
proof -
  obtain lfh where 1: "createLocalFileHeader (toBytes e (Text path)) (date s) (truthy level) = Some lfh"
    using createLocalFileHeader_Some by blast
  have stored: "writeContent e (toBytes e buffer) level (s\<lparr> emitted := X \<rparr>)
      = Returned (length (toBytes e buffer), s\<lparr> emitted := X @ [Data (toBytes e buffer)] \<rparr>)"
    if "\<not> truthy level" for X
    using that by (simp add: writeContent_stored)
  have compressed: "writeContent e (toBytes e buffer) level (s\<lparr> emitted := X \<rparr>)
      = (case deflate e (toBytes e buffer) n (shareMemory s) (chunkSize s) of
           Completes cs \<Rightarrow> Returned (sum_list (map length cs), s\<lparr> emitted := X @ map Data cs \<rparr>)
         | Fails cs \<Rightarrow> Thrown CompressorError (s\<lparr> emitted := X @ map Data cs \<rparr>))"
    if "level = Some n" "n \<noteq> 0" for X n
    using that by (simp add: writeContent_def fold_streamFn split: compression.splits)
  consider (returns) k evs where
      "\<And>X. writeContent e (toBytes e buffer) level (s\<lparr> emitted := X \<rparr>)
          = Returned (k, s\<lparr> emitted := X @ evs \<rparr>)"
    | (throws) evs where
      "\<And>X. writeContent e (toBytes e buffer) level (s\<lparr> emitted := X \<rparr>)
          = Thrown CompressorError (s\<lparr> emitted := X @ evs \<rparr>)"
  proof (cases "truthy level")
    case False
    with stored returns show ?thesis by blast
  next
    case True
    then obtain n where n: "level = Some n" "n \<noteq> 0"
      by (cases level) (auto simp: truthy_def)
    show ?thesis
    proof (cases "deflate e (toBytes e buffer) n (shareMemory s) (chunkSize s)")
      case (Completes cs)
      with compressed [OF n] have "writeContent e (toBytes e buffer) level (s\<lparr> emitted := X \<rparr>)
          = Returned (sum_list (map length cs), s\<lparr> emitted := X @ map Data cs \<rparr>)" for X
        by simp
      then show ?thesis by (rule returns)
    next
      case (Fails cs)
      with compressed [OF n] have "writeContent e (toBytes e buffer) level (s\<lparr> emitted := X \<rparr>)
          = Thrown CompressorError (s\<lparr> emitted := X @ map Data cs \<rparr>)" for X
        by simp
      then show ?thesis by (rule throws)
    qed
  qed
  then show ?thesis
  proof cases
    case (returns k evs)
    obtain dd where 3: "createDataDescriptor (crc32 e (toBytes e buffer)) k (length (toBytes e buffer)) = Some dd"
      using createDataDescriptor_Some by blast
    obtain cdh where 4: "createCentralDirHeader (toBytes e (Text path)) (date s) (truthy level) (offset s)
         (length (toBytes e buffer)) k (crc32 e (toBytes e buffer)) = Some cdh"
      using createCentralDirHeader_Some by blast
    have "writeFile e path buffer level (s\<lparr> emitted := X \<rparr>) = Returned (s\<lparr>
          centralDirHeaders := centralDirHeaders s @ [cdh],
          offset := offset s + (length lfh + k + length dd),
          emitted := X @ Data lfh # evs @ [Data dd] \<rparr>)" for X
      using 1 returns [of "X @ [Data lfh]"] 3 4 by (simp add: writeFile_def trigger_def)
    from this [of "emitted s"] this show ?thesis
      by (intro exI [of _ "s\<lparr>
          centralDirHeaders := centralDirHeaders s @ [cdh],
          offset := offset s + (length lfh + k + length dd),
          emitted := emitted s @ Data lfh # evs @ [Data dd] \<rparr>"]
          exI [of _ "Data lfh # evs @ [Data dd]"]) simp
  next
    case (throws evs)
    have "writeFile e path buffer level (s\<lparr> emitted := X \<rparr>)
        = Thrown CompressorError (s\<lparr> emitted := X @ Data lfh # evs \<rparr>)" for X
      using 1 throws [of "X @ [Data lfh]"] by (simp add: writeFile_def trigger_def)
    from this [of "emitted s"] this show ?thesis
      by (intro exI [of _ "s\<lparr> emitted := emitted s @ Data lfh # evs \<rparr>"]
          exI [of _ "Data lfh # evs"]) simp
  qed
qed

lemma reduce_dirs_frame:
  "\<exists>parent' t evs. reduce_dirs e parent rest s = Returned (parent', t) \<and> emitted t = emitted s @ evs
     \<and> (\<forall>X. reduce_dirs e parent rest (s\<lparr> emitted := X \<rparr>)
            = Returned (parent', t\<lparr> emitted := X @ evs \<rparr>))"
proof (induction rest arbitrary: parent s)
  case Nil
  then show ?case by simp
next
  case (Cons child rest)
  obtain t evs where 1: "writeDir e (parent @ [slash]) s = Returned t"
    and 2: "emitted t = emitted s @ evs"
    and 3: "writeDir e (parent @ [slash]) (s\<lparr> emitted := X \<rparr>) = Returned (t\<lparr> emitted := X @ evs \<rparr>)" for X
    using writeDir_frame by blast
  obtain parent' u evs' where 4: "reduce_dirs e (parent @ [slash] @ child) rest t = Returned (parent', u)"
    and 5: "emitted u = emitted t @ evs'"
    and 6: "reduce_dirs e (parent @ [slash] @ child) rest (t\<lparr> emitted := X \<rparr>)
              = Returned (parent', u\<lparr> emitted := X @ evs' \<rparr>)" for X
    using Cons.IH by blast
  from 1 4 have "reduce_dirs e parent (child # rest) s = Returned (parent', u)" by simp
  moreover from 2 5 have "emitted u = emitted s @ (evs @ evs')" by simp
  moreover have "reduce_dirs e parent (child # rest) (s\<lparr> emitted := X \<rparr>)
      = Returned (parent', u\<lparr> emitted := X @ (evs @ evs') \<rparr>)" for X
    using 3 [of X] 6 [of "X @ evs"] by simp
  ultimately show ?case by blast
qed

lemma writePath_frame:
  "\<exists>t evs. emitted t = emitted s @ evs
     \<and> (writePath e path buffer level s = Returned t
          \<and> (\<forall>X. writePath e path buffer level (s\<lparr> emitted := X \<rparr>)
                   = Returned (t\<lparr> emitted := X @ evs \<rparr>))
        \<or> writePath e path buffer level s = Thrown CompressorError t
          \<and> (\<forall>X. writePath e path buffer level (s\<lparr> emitted := X \<rparr>)
                   = Thrown CompressorError (t\<lparr> emitted := X @ evs \<rparr>)))"
proof -
  obtain first rest where 0: "split slash path = first # rest" by (rule split_Cons)
  obtain parent' t evs where 1: "reduce_dirs e first rest s = Returned (parent', t)"
    and 2: "emitted t = emitted s @ evs"
    and 3: "reduce_dirs e first rest (s\<lparr> emitted := X \<rparr>) = Returned (parent', t\<lparr> emitted := X @ evs \<rparr>)" for X
    using reduce_dirs_frame by blast
  obtain u evs' where 5: "emitted u = emitted t @ evs'"
    and 6: "writeFile e path buffer level t = Returned u
          \<and> (\<forall>X. writeFile e path buffer level (t\<lparr> emitted := X \<rparr>)
                   = Returned (u\<lparr> emitted := X @ evs' \<rparr>))
        \<or> writeFile e path buffer level t = Thrown CompressorError u
          \<and> (\<forall>X. writeFile e path buffer level (t\<lparr> emitted := X \<rparr>)
                   = Thrown CompressorError (u\<lparr> emitted := X @ evs' \<rparr>))"
    using writeFile_frame by blast
  have a: "writePath e path buffer level s = writeFile e path buffer level t"
    using 0 1 by (simp add: writePath_def)
  have b: "writePath e path buffer level (s\<lparr> emitted := X \<rparr>)
      = writeFile e path buffer level (t\<lparr> emitted := X @ evs \<rparr>)" for X
    using 0 3 [of X] by (simp add: writePath_def)
  from 2 5 have c: "emitted u = emitted s @ (evs @ evs')" by simp
  from 6 show ?thesis
  proof
    assume r: "writeFile e path buffer level t = Returned u
          \<and> (\<forall>X. writeFile e path buffer level (t\<lparr> emitted := X \<rparr>)
                   = Returned (u\<lparr> emitted := X @ evs' \<rparr>))"
    then have "writePath e path buffer level (s\<lparr> emitted := X \<rparr>)
        = Returned (u\<lparr> emitted := X @ (evs @ evs') \<rparr>)" for X
      using b [of X] by simp
    with r a c show ?thesis by metis
  next
    assume r: "writeFile e path buffer level t = Thrown CompressorError u
          \<and> (\<forall>X. writeFile e path buffer level (t\<lparr> emitted := X \<rparr>)
                   = Thrown CompressorError (u\<lparr> emitted := X @ evs' \<rparr>))"
    then have "writePath e path buffer level (s\<lparr> emitted := X \<rparr>)
        = Thrown CompressorError (u\<lparr> emitted := X @ (evs @ evs') \<rparr>)" for X
      using b [of X] by simp
    with r a c show ?thesis by metis
  qed
qed

lemma do_call_frame:
  "\<exists>t evs. emitted t = emitted s @ evs
     \<and> (do_call e c s = Returned t
          \<and> (\<forall>X. do_call e c (s\<lparr> emitted := X \<rparr>) = Returned (t\<lparr> emitted := X @ evs \<rparr>))
        \<or> do_call e c s = Thrown CompressorError t
          \<and> (\<forall>X. do_call e c (s\<lparr> emitted := X \<rparr>)
                   = Thrown CompressorError (t\<lparr> emitted := X @ evs \<rparr>)))"
proof (cases c)
  case (WriteDir path)
  with writeDir_frame [of e path s] show ?thesis by auto
next
  case (WriteFile path buffer level)
  with writeFile_frame [of s e path buffer level] show ?thesis by simp
next
  case (Write path buffer level)
  with writePath_frame [of s e path buffer level] show ?thesis by simp
qed

text \<open>
  Claim C3, as amended. \<open>writeEnd\<close> returns and changes nothing of the engine but the
  events emitted: the engine keeps no mark of being finished. A call of \<open>writeDir\<close>,
  \<open>writeFile\<close> or \<open>write\<close> made after it is accepted: its outcome is the one it has
  without the \<open>writeEnd\<close> before it. Where it returns there it returns here, with the
  same directory set, pending records and offset, and the events it emits follow the end
  record; the one throw it can meet, here as there, is the compressor's. Refusing such a
  call is left to the caller.
\<close>

theorem calls_after_writeEnd_accepted:
  "\<exists>endHeader s1 t evs.
      writeEnd s = Returned s1
    \<and> s1 = s\<lparr> emitted := emitted s @ map Data (centralDirHeaders s) @ [Data endHeader, End] \<rparr>
    \<and> emitted t = emitted s @ evs
    \<and> (do_call e c s = Returned t
          \<and> do_call e c s1 = Returned (t\<lparr> emitted := emitted s1 @ evs \<rparr>)
        \<or> do_call e c s = Thrown CompressorError t
          \<and> do_call e c s1 = Thrown CompressorError (t\<lparr> emitted := emitted s1 @ evs \<rparr>))"
proof -
  obtain endHeader where 1: "writeEnd s = Returned (s\<lparr> emitted :=
        emitted s @ map Data (centralDirHeaders s) @ [Data endHeader, End] \<rparr>)"
    by (rule writeEnd_result)
  let ?s1 = "s\<lparr> emitted := emitted s @ map Data (centralDirHeaders s) @ [Data endHeader, End] \<rparr>"
  obtain t evs where 3: "emitted t = emitted s @ evs"
    and 4: "do_call e c s = Returned t
          \<and> (\<forall>X. do_call e c (s\<lparr> emitted := X \<rparr>) = Returned (t\<lparr> emitted := X @ evs \<rparr>))
        \<or> do_call e c s = Thrown CompressorError t
          \<and> (\<forall>X. do_call e c (s\<lparr> emitted := X \<rparr>)
                   = Thrown CompressorError (t\<lparr> emitted := X @ evs \<rparr>))"
    using do_call_frame by blast
  have "do_call e c s = Returned t
          \<and> do_call e c ?s1 = Returned (t\<lparr> emitted := emitted ?s1 @ evs \<rparr>)
        \<or> do_call e c s = Thrown CompressorError t
          \<and> do_call e c ?s1 = Thrown CompressorError (t\<lparr> emitted := emitted ?s1 @ evs \<rparr>)"
  proof -
    have "s\<lparr> emitted := emitted ?s1 \<rparr> = ?s1" by simp
    with 4 show ?thesis by metis
  qed
  with 1 3 show ?thesis by blast
qed

text \<open>
  Claim C3 as stated fails: on a new engine, \<open>writeEnd\<close> and then \<open>writeDir("d")\<close> both
  return; the second emits a local file header after the end record, and the number of
  pending records and the offset, 0 and 0 when the end record was made, become 1 and 32.
\<close>

theorem write_after_writeEnd_not_rejected:
  "\<exists>s1 s2 lfh.
      writeEnd fresh = Returned s1
    \<and> length (centralDirHeaders s1) = 0 \<and> offset s1 = 0
    \<and> writeDir sample (str ''d'') s1 = Returned s2
    \<and> emitted s2 = emitted s1 @ [Data lfh]
    \<and> length (centralDirHeaders s2) = 1 \<and> offset s2 = 32"
proof -
  obtain endHeader where 1: "writeEnd fresh = Returned (fresh\<lparr> emitted :=
        emitted fresh @ map Data (centralDirHeaders fresh) @ [Data endHeader, End] \<rparr>)"
    by (rule writeEnd_result)
  let ?s1 = "fresh\<lparr> emitted :=
        emitted fresh @ map Data (centralDirHeaders fresh) @ [Data endHeader, End] \<rparr>"
  have "\<not> dirs ?s1 (dirName (str ''d''))"
    by (simp add: fresh_def new_ZipArchiveWriter_def)
  then obtain lfh cdh where
    2: "createLocalFileHeader (toBytes sample (Text (dirName (str ''d'')))) (date ?s1) False = Some lfh"
    and 3: "writeDir sample (str ''d'') ?s1 = Returned (?s1\<lparr> dirs := (dirs ?s1)(dirName (str ''d'') := True),
        centralDirHeaders := centralDirHeaders ?s1 @ [cdh],
        offset := offset ?s1 + length lfh,
        emitted := emitted ?s1 @ [Data lfh] \<rparr>)"
    by (rule writeDir_fresh)
  from 2 have "length lfh = 30 + length (toBytes sample (Text (dirName (str ''d''))))"
    by (rule createLocalFileHeader_length)
  then have "length lfh = 32"
    by (simp add: dirName_str_d) (simp add: sample_def str_def)
  with 1 3 show ?thesis
    by (simp add: fresh_def new_ZipArchiveWriter_def)
qed

subsection \<open>Directories are written once\<close>

text \<open>
  The pattern \<open>.+\/$\<close> read as a regular expression: some non-empty run of code units
  that are no line terminators, then \<open>/\<close>, then the end of the string.
\<close>

lemma dirPattern_iff:
  "dirPattern path \<longleftrightarrow>
     (\<exists>pre body. path = pre @ body @ [slash] \<and> body \<noteq> [] \<and> noLineTerminator body)"
proof
  assume "dirPattern path"
  then obtain b rest where "rev path = slash # b # rest" and "\<not> isLineTerminator b"
    by (auto simp: dirPattern_def split: list.splits)
  then have "path = rev rest @ [b] @ [slash]" and "noLineTerminator [b]"
    by (simp_all add: rev_eq_Cons_iff noLineTerminator_def)
  then show "\<exists>pre body. path = pre @ body @ [slash] \<and> body \<noteq> [] \<and> noLineTerminator body"
    by blast
next
  assume "\<exists>pre body. path = pre @ body @ [slash] \<and> body \<noteq> [] \<and> noLineTerminator body"
  then obtain pre body where p: "path = pre @ body @ [slash]" and "body \<noteq> []"
    and n: "noLineTerminator body" by blast
  then obtain body' b where "body = body' @ [b]" by (cases body rule: rev_cases) auto
  with p n show "dirPattern path"
    by (simp add: dirPattern_def noLineTerminator_def)
qed

text \<open>On a path without line terminators the engine's rule is the one named above.\<close>

lemma dirName_noLineTerminator:
  assumes "noLineTerminator path"
  shows "dirName path = appendSlashToName path"
proof (cases "rev path")
  case Nil
  then show ?thesis by (simp add: dirName_def dirPattern_def appendSlashToName_def)
next
  case (Cons c cs)
  note 1 = this
  show ?thesis
  proof (cases cs)
    case Nil
    with 1 have "path = [c]" by simp
    then show ?thesis by (simp add: dirName_def dirPattern_def appendSlashToName_def)
  next
    case (Cons b rest)
    with 1 have p: "path = rev rest @ [b, c]" by (simp add: rev_eq_Cons_iff)
    with assms have "\<not> isLineTerminator b" by (simp add: noLineTerminator_def)
    with p show ?thesis by (simp add: dirName_def dirPattern_def appendSlashToName_def)
  qed
qed

lemma writeDir_twice:
  assumes "dirName p = dirName q"
  shows "\<exists>t. writeDir e p s = Returned t \<and> writeDir e q t = Returned t
    \<and> (dirs s (dirName p) \<and> t = s
        \<or> (\<exists>lfh cdh.
              createLocalFileHeader (toBytes e (Text (dirName p))) (date s) False = Some lfh
            \<and> emitted t = emitted s @ [Data lfh]
            \<and> centralDirHeaders t = centralDirHeaders s @ [cdh]
            \<and> offset t = offset s + length lfh))"
proof (cases "dirs s (dirName p)")
  case True
  with assms show ?thesis by (simp add: writeDir_known)
next
  case False
  then obtain lfh cdh where
    1: "createLocalFileHeader (toBytes e (Text (dirName p))) (date s) False = Some lfh"
    and 3: "writeDir e p s = Returned (s\<lparr> dirs := (dirs s)(dirName p := True),
        centralDirHeaders := centralDirHeaders s @ [cdh],
        offset := offset s + length lfh,
        emitted := emitted s @ [Data lfh] \<rparr>)"
    by (rule writeDir_fresh)
  let ?t = "s\<lparr> dirs := (dirs s)(dirName p := True),
        centralDirHeaders := centralDirHeaders s @ [cdh],
        offset := offset s + length lfh,
        emitted := emitted s @ [Data lfh] \<rparr>"
  from assms have "dirs ?t (dirName q)" by simp
  then have "writeDir e q ?t = Returned ?t" by (rule writeDir_known)
  with 1 3 show ?thesis by simp
qed

text \<open>
  Claim C6, as amended. Take two paths without line terminators that become the same
  string when a trailing \<open>/\<close> is appended unless the path already ends in \<open>/\<close> after at
  least one other code unit. \<open>writeDir\<close> on the first and then on the second returns
  both times, and the second call changes nothing: no event, no record, the same offset.
  Unless the directory was written before (then the first call changes nothing either),
  the first call emits exactly one chunk, the local file header of the directory,
  appends exactly one central directory record and advances the offset by the length of
  the header.
\<close>

theorem writeDir_idempotent:
  assumes "noLineTerminator p" and "noLineTerminator q"
    and "appendSlashToName p = appendSlashToName q"
  shows "\<exists>t. writeDir e p s = Returned t \<and> writeDir e q t = Returned t
    \<and> (dirs s (appendSlashToName p) \<and> t = s
        \<or> (\<exists>lfh cdh.
              createLocalFileHeader (toBytes e (Text (appendSlashToName p))) (date s) False = Some lfh
            \<and> emitted t = emitted s @ [Data lfh]
            \<and> centralDirHeaders t = centralDirHeaders s @ [cdh]
            \<and> offset t = offset s + length lfh))"
  using assms writeDir_twice [of p q e s] by (simp add: dirName_noLineTerminator)

text \<open>The paths \<open>a\<close> and \<open>a/\<close> on a new engine.\<close>

theorem writeDir_idempotent_witness:
  "noLineTerminator (str ''a'') \<and> noLineTerminator (str ''a/'')
   \<and> appendSlashToName (str ''a'') = str ''a/'' \<and> appendSlashToName (str ''a/'') = str ''a/''
   \<and> (\<exists>t lfh cdh. writeDir sample (str ''a'') fresh = Returned t
         \<and> writeDir sample (str ''a/'') t = Returned t
         \<and> emitted t = [Data lfh] \<and> centralDirHeaders t = [cdh] \<and> offset t = length lfh)"
proof -
  have a: "noLineTerminator (str ''a'')" "noLineTerminator (str ''a/'')"
    by (simp_all add: noLineTerminator_def isLineTerminator_def str_def)
  have b: "appendSlashToName (str ''a'') = str ''a/''" "appendSlashToName (str ''a/'') = str ''a/''"
    by (simp_all add: appendSlashToName_def str_def slash_def)
  have c: "\<not> dirs fresh (str ''a/'')" "emitted fresh = []" "centralDirHeaders fresh = []"
    "offset fresh = 0"
    by (simp_all add: fresh_def new_ZipArchiveWriter_def)
  from b have "appendSlashToName (str ''a'') = appendSlashToName (str ''a/'')" by simp
  from writeDir_idempotent [OF a this, of sample fresh] c
  obtain t lfh cdh where "writeDir sample (str ''a'') fresh = Returned t"
    "writeDir sample (str ''a/'') t = Returned t"
    "emitted t = [Data lfh]" "centralDirHeaders t = [cdh]" "offset t = length lfh"
    unfolding b by auto
  with a b show ?thesis by blast
qed

text \<open>
  Claim C6 as stated fails: the empty path and the path \<open>/\<close> are the same once a missing
  trailing \<open>/\<close> is appended, yet \<open>writeDir("")\<close> writes the directory \<open>/\<close> and
  \<open>writeDir("/")\<close> after it writes the directory \<open>//\<close>: two local file headers, two
  central directory records, and the offset moves from 31 to 63.
\<close>

theorem writeDir_not_idempotent_on_appendSlash:
  "appendSlash (str '''') = appendSlash (str ''/'')
   \<and> (\<exists>t u lfh lfh'. writeDir sample (str '''') fresh = Returned t
         \<and> emitted t = [Data lfh] \<and> length (centralDirHeaders t) = 1 \<and> offset t = 31
         \<and> writeDir sample (str ''/'') t = Returned u
         \<and> emitted u = [Data lfh, Data lfh'] \<and> length (centralDirHeaders u) = 2
         \<and> offset u = 63)"
proof -
  have n: "dirName (str '''') = str ''/''" "dirName (str ''/'') = str ''//''"
    by (simp_all add: dirName_def dirPattern_def str_def slash_def)
  have "\<not> dirs fresh (dirName (str ''''))"
    by (simp add: fresh_def new_ZipArchiveWriter_def)
  then obtain lfh cdh where
    1: "createLocalFileHeader (toBytes sample (Text (dirName (str '''')))) (date fresh) False = Some lfh"
    and 2: "writeDir sample (str '''') fresh = Returned (fresh\<lparr> dirs := (dirs fresh)(dirName (str '''') := True),
        centralDirHeaders := centralDirHeaders fresh @ [cdh],
        offset := offset fresh + length lfh,
        emitted := emitted fresh @ [Data lfh] \<rparr>)"
    by (rule writeDir_fresh)
  let ?t = "fresh\<lparr> dirs := (dirs fresh)(dirName (str '''') := True),
        centralDirHeaders := centralDirHeaders fresh @ [cdh],
        offset := offset fresh + length lfh,
        emitted := emitted fresh @ [Data lfh] \<rparr>"
  from 1 have "length lfh = 30 + length (toBytes sample (Text (dirName (str ''''))))"
    by (rule createLocalFileHeader_length)
  then have l: "length lfh = 31" unfolding n by (simp add: sample_def str_def)
  have "\<not> dirs ?t (dirName (str ''/''))"
    unfolding n by (simp add: fresh_def new_ZipArchiveWriter_def str_def)
  then obtain lfh' cdh' where
    3: "createLocalFileHeader (toBytes sample (Text (dirName (str ''/'')))) (date ?t) False = Some lfh'"
    and 4: "writeDir sample (str ''/'') ?t = Returned (?t\<lparr> dirs := (dirs ?t)(dirName (str ''/'') := True),
        centralDirHeaders := centralDirHeaders ?t @ [cdh'],
        offset := offset ?t + length lfh',
        emitted := emitted ?t @ [Data lfh'] \<rparr>)"
    by (rule writeDir_fresh)
  from 3 have "length lfh' = 30 + length (toBytes sample (Text (dirName (str ''/''))))"
    by (rule createLocalFileHeader_length)
  then have l': "length lfh' = 32" unfolding n by (simp add: sample_def str_def)
  have "appendSlash (str '''') = appendSlash (str ''/'')"
    by (simp add: appendSlash_def str_def slash_def)
  with 2 4 l l' show ?thesis
    by (simp add: fresh_def new_ZipArchiveWriter_def)
qed

subsection \<open>The directories of a path\<close>

lemma reduce_dirs_writeDirs:
  "andThen (reduce_dirs e parent rest s) (\<lambda>(_, t). f t)
     = andThen (writeDirs e (reduce_args parent rest) s) f"
proof (induction rest arbitrary: parent s)
  case Nil
  then show ?case by simp
next
  case (Cons child rest)
  then show ?case by (cases "writeDir e (parent @ [slash]) s") simp_all
qed

lemma reduce_args_append:
  "reduce_args (p @ seg) rest = map ((@) p) (reduce_args seg rest)"
  by (induction rest arbitrary: seg) simp_all

lemma dirPrefixes_Cons:
  "dirPrefixes (c # cs)
     = (if c = slash then [[c]] else []) @ map ((#) c) (dirPrefixes cs)"
  by (cases cs) (auto simp: dirPrefixes_def filter_map comp_def intro: filter_cong)

lemma reduce_args_split_from:
  "split_from slash cur cs = seg # rest
    \<Longrightarrow> reduce_args seg rest = map ((@) cur) (dirPrefixes cs)"
proof (induction cs arbitrary: cur seg rest)
  case Nil
  then show ?case by (simp add: dirPrefixes_def)
next
  case (Cons c cs)
  show ?case
  proof (cases "c = slash")
    case True
    obtain seg' rest' where s: "split_from slash [] cs = seg' # rest'"
      using split_from_not_Nil [of slash "[]" cs] by (cases "split_from slash [] cs") auto
    with Cons.prems True have "seg = cur" and "rest = seg' # rest'" by simp_all
    moreover from s have "reduce_args seg' rest' = map ((@) []) (dirPrefixes cs)"
      by (rule Cons.IH)
    moreover have "reduce_args ((cur @ [slash]) @ seg') rest'
        = map ((@) (cur @ [slash])) (reduce_args seg' rest')"
      by (rule reduce_args_append)
    ultimately show ?thesis using True by (simp add: dirPrefixes_Cons)
  next
    case False
    with Cons.prems have "split_from slash (cur @ [c]) cs = seg # rest" by simp
    then have "reduce_args seg rest = map ((@) (cur @ [c])) (dirPrefixes cs)"
      by (rule Cons.IH)
    with False show ?thesis by (simp add: dirPrefixes_Cons)
  qed
qed

lemma writePath_writeDirs:
  "writePath e path buffer level s
     = andThen (writeDirs e (dirPrefixes path) s) (writeFile e path buffer level)"
proof -
  obtain first rest where 0: "split slash path = first # rest" by (rule split_Cons)
  then have "reduce_args first rest = map ((@) []) (dirPrefixes path)"
    unfolding split_def by (rule reduce_args_split_from)
  moreover have "map ((@) []) ds = ds" for ds :: "jsstring list"
    by (induction ds) simp_all
  ultimately have "reduce_args first rest = dirPrefixes path" by simp
  with 0 reduce_dirs_writeDirs [of e first rest s "writeFile e path buffer level"]
  show ?thesis by (simp add: writePath_def)
qed


lemma length_last_split_from:
  "length (last (split_from sep cur cs)) \<le> length cur + length cs"
proof (induction cs arbitrary: cur)
  case Nil
  then show ?case by simp
next
  case (Cons c cs)
  show ?case
  proof (cases "c = sep")
    case True
    with Cons.IH [of "[]"] show ?thesis by (simp add: split_from_not_Nil)
  next
    case False
    with Cons.IH [of "cur @ [c]"] show ?thesis by simp
  qed
qed

lemma dirPrefixes_before_last_segment:
  "list_all (\<lambda>d. length d + length (last (split_from slash cur cs)) \<le> length cs) (dirPrefixes cs)"
proof (induction cs arbitrary: cur)
  case Nil
  then show ?case by (simp add: dirPrefixes_def)
next
  case (Cons c cs)
  show ?case
  proof (cases "c = slash")
    case True
    with Cons.IH [of "[]"] length_last_split_from [of slash "[]" cs] show ?thesis
      by (simp add: dirPrefixes_Cons split_from_not_Nil list_all_iff)
  next
    case False
    with Cons.IH [of "cur @ [c]"] show ?thesis
      by (simp add: dirPrefixes_Cons list_all_iff)
  qed
qed

lemma dirPrefixes_prefix: "list_all (\<lambda>d. prefix d path) (dirPrefixes path)"
  by (simp add: dirPrefixes_def list_all_iff in_set_prefixes)

lemma dirPrefixes_not_Nil: "d \<in> set (dirPrefixes path) \<Longrightarrow> d \<noteq> []"
  by (simp add: dirPrefixes_def)

lemma dirPrefixes_sorted: "sorted_wrt (\<lambda>a b. length a < length b) (dirPrefixes path)"
proof (induction path)
  case Nil
  then show ?case by (simp add: dirPrefixes_def)
next
  case (Cons c cs)
  then show ?case
    by (auto simp: dirPrefixes_Cons sorted_wrt_map dest: dirPrefixes_not_Nil)
qed

lemma dirPrefixes_slash: "slash \<in> set path \<Longrightarrow> dirPrefixes path \<noteq> []"
  by (induction path) (auto simp: dirPrefixes_Cons)

text \<open>
  Claim C5. For a path with at least one \<open>/\<close>, the method \<open>write\<close> does what these calls
  do, in this order: \<open>writeDir\<close> on each prefix of the path that ends in \<open>/\<close>, from the
  shortest to the longest, then \<open>writeFile\<close> on the path itself. There is at least one
  such prefix, and each of them ends before the final segment of the path: the final
  segment is never part of an argument of \<open>writeDir\<close>.
\<close>

theorem writePath_directories_then_file:
  assumes "slash \<in> set path"
  shows "writePath e path buffer level s
           = andThen (writeDirs e (dirPrefixes path) s) (writeFile e path buffer level)
    \<and> dirPrefixes path \<noteq> []
    \<and> sorted_wrt (\<lambda>a b. length a < length b) (dirPrefixes path)
    \<and> list_all (\<lambda>d. prefix d path
                  \<and> length d + length (last (split slash path)) \<le> length path)
         (dirPrefixes path)"
proof -
  have "list_all (\<lambda>d. length d + length (last (split slash path)) \<le> length path)
      (dirPrefixes path)"
    unfolding split_def by (rule dirPrefixes_before_last_segment)
  with dirPrefixes_prefix [of path] have "list_all (\<lambda>d. prefix d path
                  \<and> length d + length (last (split slash path)) \<le> length path)
         (dirPrefixes path)"
    by (simp add: list_all_iff)
  with assms show ?thesis
    by (simp add: writePath_writeDirs dirPrefixes_sorted dirPrefixes_slash)
qed

text \<open>The path \<open>a/b/c.txt\<close>: the directories \<open>a/\<close> and \<open>a/b/\<close>, then the file.\<close>

theorem writePath_directories_then_file_witness:
  "slash \<in> set (str ''a/b/c.txt'')
   \<and> dirPrefixes (str ''a/b/c.txt'') = [str ''a/'', str ''a/b/'']
   \<and> last (split slash (str ''a/b/c.txt'')) = str ''c.txt''
   \<and> writePath sample (str ''a/b/c.txt'') (Text (str ''hi'')) None fresh
        = andThen (writeDirs sample [str ''a/'', str ''a/b/''] fresh)
            (writeFile sample (str ''a/b/c.txt'') (Text (str ''hi'')) None)"
proof -
  have a: "slash \<in> set (str ''a/b/c.txt'')"
    by (simp add: str_def slash_def)
  have b: "dirPrefixes (str ''a/b/c.txt'') = [str ''a/'', str ''a/b/'']"
    by (simp add: str_def slash_def dirPrefixes_Cons) (simp add: dirPrefixes_def)
  have c: "last (split slash (str ''a/b/c.txt'')) = str ''c.txt''"
    by (simp add: str_def slash_def split_def)
  from writePath_directories_then_file [OF a, of sample "Text (str ''hi'')" None fresh] a b c
  show ?thesis by simp
qed

subsection \<open>The scenario \<open>a/b.txt\<close>\<close>

text \<open>
  Claim C2 as stated fails: \<open>writeFile\<close> writes no directory. On a new engine,
  \<open>writeFile("a/b.txt", "hi", 0)\<close> leaves one pending central directory record and an
  empty directory set, and the end record that \<open>writeEnd\<close> then emits counts 1 entry, in
  both count fields.
\<close>

theorem writeFile_scenario_one_entry:
  "\<exists>s cdh s' endHeader.
      writeFile sample (str ''a/b.txt'') (Text (str ''hi'')) (Some 0) fresh = Returned s
    \<and> centralDirHeaders s = [cdh]
    \<and> dirs s = (\<lambda>_. False)
    \<and> writeEnd s = Returned s'
    \<and> emitted s' = emitted s @ [Data cdh, Data endHeader, End]
    \<and> getUint16 endHeader 8 = 1 \<and> getUint16 endHeader 10 = 1"
proof -
  have f: "\<not> truthy (Some 0)" by (simp add: truthy_def)
  let ?hi = "toBytes sample (Text (str ''hi''))"
  obtain lfh dd cdh where
    5: "writeFile sample (str ''a/b.txt'') (Text (str ''hi'')) (Some 0) fresh = Returned (fresh\<lparr>
        centralDirHeaders := centralDirHeaders fresh @ [cdh],
        offset := offset fresh + (length lfh + length ?hi + length dd),
        emitted := emitted fresh @ [Data lfh, Data ?hi, Data dd] \<rparr>)"
    by (rule writeFile_result [OF f])
  let ?s = "fresh\<lparr>
        centralDirHeaders := centralDirHeaders fresh @ [cdh],
        offset := offset fresh + (length lfh + length ?hi + length dd),
        emitted := emitted fresh @ [Data lfh, Data ?hi, Data dd] \<rparr>"
  obtain endHeader where 6: "createEndCentDirHeader (length (centralDirHeaders ?s))
       (sum_list (map length (centralDirHeaders ?s))) (offset ?s) = Some endHeader"
    and 7: "writeEnd ?s = Returned (?s\<lparr> emitted :=
        emitted ?s @ map Data (centralDirHeaders ?s) @ [Data endHeader, End] \<rparr>)"
    by (rule writeEnd_result)
  have l: "length (centralDirHeaders ?s) = 1"
    by (simp add: fresh_def new_ZipArchiveWriter_def)
  from 6 have "getUint16 endHeader 8 = 1" and "getUint16 endHeader 10 = 1"
    unfolding l by (simp_all add: createEndCentDirHeader_count_disk createEndCentDirHeader_count_total)
  with 5 7 show ?thesis
    by (simp add: fresh_def new_ZipArchiveWriter_def)
qed

text \<open>
  Claim C2, as amended: the scenario with the method \<open>write\<close>. On a new engine,
  \<open>write("a/b.txt", "hi", 0)\<close> emits the local file header of the directory \<open>a/\<close>, then
  the local file header of the file \<open>a/b.txt\<close> (method stored), its content and its data
  descriptor; it leaves two pending central directory records, the one of \<open>a/\<close> at
  offset 0 and the one of \<open>a/b.txt\<close> at the offset where the first header ends, and the
  directory set holds \<open>a/\<close> alone. \<open>writeEnd\<close> then emits the two records and the end
  record, whose two count fields are both 2.
\<close>

theorem write_scenario_two_entries:
  "\<exists>lfhA cdhA lfhF dd cdhF s s' endHeader.
      createLocalFileHeader (toBytes e (Text (str ''a/''))) now False = Some lfhA
    \<and> createCentralDirHeader (toBytes e (Text (str ''a/''))) now False 0 0 0 0 = Some cdhA
    \<and> createLocalFileHeader (toBytes e (Text (str ''a/b.txt''))) now False = Some lfhF
    \<and> createDataDescriptor (crc32 e (toBytes e (Text (str ''hi''))))
         (length (toBytes e (Text (str ''hi'')))) (length (toBytes e (Text (str ''hi'')))) = Some dd
    \<and> createCentralDirHeader (toBytes e (Text (str ''a/b.txt''))) now False (length lfhA)
         (length (toBytes e (Text (str ''hi'')))) (length (toBytes e (Text (str ''hi''))))
         (crc32 e (toBytes e (Text (str ''hi'')))) = Some cdhF
    \<and> writePath e (str ''a/b.txt'') (Text (str ''hi'')) (Some 0)
         (new_ZipArchiveWriter params now) = Returned s
    \<and> emitted s = [Data lfhA, Data lfhF, Data (toBytes e (Text (str ''hi''))), Data dd]
    \<and> centralDirHeaders s = [cdhA, cdhF]
    \<and> dirs s = (\<lambda>_. False)(str ''a/'' := True)
    \<and> writeEnd s = Returned s'
    \<and> emitted s' = emitted s @ [Data cdhA, Data cdhF, Data endHeader, End]
    \<and> getUint16 endHeader 8 = 2 \<and> getUint16 endHeader 10 = 2"
proof -
  let ?init = "new_ZipArchiveWriter params now"
  let ?hi = "toBytes e (Text (str ''hi''))"
  have p: "dirPrefixes (str ''a/b.txt'') = [str ''a/'']"
    by (simp add: str_def slash_def dirPrefixes_Cons) (simp add: dirPrefixes_def)
  have n: "dirName (str ''a/'') = str ''a/''"
    by (simp add: dirName_def dirPattern_def str_def slash_def isLineTerminator_def)
  have "\<not> dirs ?init (dirName (str ''a/''))"
    by (simp add: new_ZipArchiveWriter_def)
  then obtain lfhA cdhA where
    1: "createLocalFileHeader (toBytes e (Text (dirName (str ''a/'')))) (date ?init) False = Some lfhA"
    and 2: "createCentralDirHeader (toBytes e (Text (dirName (str ''a/'')))) (date ?init) False (offset ?init) 0 0 0 = Some cdhA"
    and 3: "writeDir e (str ''a/'') ?init = Returned (?init\<lparr> dirs := (dirs ?init)(dirName (str ''a/'') := True),
        centralDirHeaders := centralDirHeaders ?init @ [cdhA],
        offset := offset ?init + length lfhA,
        emitted := emitted ?init @ [Data lfhA] \<rparr>)"
    by (rule writeDir_fresh)
  let ?t = "?init\<lparr> dirs := (dirs ?init)(dirName (str ''a/'') := True),
        centralDirHeaders := centralDirHeaders ?init @ [cdhA],
        offset := offset ?init + length lfhA,
        emitted := emitted ?init @ [Data lfhA] \<rparr>"
  have f: "\<not> truthy (Some 0)" by (simp add: truthy_def)
  obtain lfhF dd cdhF where
    4: "createLocalFileHeader (toBytes e (Text (str ''a/b.txt''))) (date ?t) False = Some lfhF"
    and 6: "createDataDescriptor (crc32 e ?hi) (length ?hi) (length ?hi) = Some dd"
    and 7: "createCentralDirHeader (toBytes e (Text (str ''a/b.txt''))) (date ?t) False (offset ?t)
       (length ?hi) (length ?hi) (crc32 e ?hi) = Some cdhF"
    and 8: "writeFile e (str ''a/b.txt'') (Text (str ''hi'')) (Some 0) ?t = Returned (?t\<lparr>
        centralDirHeaders := centralDirHeaders ?t @ [cdhF],
        offset := offset ?t + (length lfhF + length ?hi + length dd),
        emitted := emitted ?t @ [Data lfhF, Data ?hi, Data dd] \<rparr>)"
    by (rule writeFile_result [OF f])
  let ?s = "?t\<lparr>
        centralDirHeaders := centralDirHeaders ?t @ [cdhF],
        offset := offset ?t + (length lfhF + length ?hi + length dd),
        emitted := emitted ?t @ [Data lfhF, Data ?hi, Data dd] \<rparr>"
  have w: "writePath e (str ''a/b.txt'') (Text (str ''hi'')) (Some 0) ?init = Returned ?s"
    using 3 8 by (simp add: writePath_writeDirs p)
  obtain endHeader where 9: "createEndCentDirHeader (length (centralDirHeaders ?s))
       (sum_list (map length (centralDirHeaders ?s))) (offset ?s) = Some endHeader"
    and 10: "writeEnd ?s = Returned (?s\<lparr> emitted :=
        emitted ?s @ map Data (centralDirHeaders ?s) @ [Data endHeader, End] \<rparr>)"
    by (rule writeEnd_result)
  have l: "length (centralDirHeaders ?s) = 2"
    by (simp add: new_ZipArchiveWriter_def)
  from 9 have c: "getUint16 endHeader 8 = 2" "getUint16 endHeader 10 = 2"
    unfolding l by (simp_all add: createEndCentDirHeader_count_disk createEndCentDirHeader_count_total)
  from 1 have a1: "createLocalFileHeader (toBytes e (Text (str ''a/''))) now False = Some lfhA"
    by (simp add: n new_ZipArchiveWriter_def)
  from 2 have a2: "createCentralDirHeader (toBytes e (Text (str ''a/''))) now False 0 0 0 0 = Some cdhA"
    by (simp add: n new_ZipArchiveWriter_def)
  from 4 have a3: "createLocalFileHeader (toBytes e (Text (str ''a/b.txt''))) now False = Some lfhF"
    by (simp add: new_ZipArchiveWriter_def)
  from 7 have a5: "createCentralDirHeader (toBytes e (Text (str ''a/b.txt''))) now False (length lfhA)
         (length ?hi) (length ?hi) (crc32 e ?hi) = Some cdhF"
    by (simp add: new_ZipArchiveWriter_def)
  have e1: "emitted ?s = [Data lfhA, Data lfhF, Data ?hi, Data dd]"
    by (simp add: new_ZipArchiveWriter_def)
  have e2: "centralDirHeaders ?s = [cdhA, cdhF]"
    by (simp add: new_ZipArchiveWriter_def)
  have e3: "dirs ?s = (\<lambda>_. False)(str ''a/'' := True)"
    by (simp add: n new_ZipArchiveWriter_def)
  from 10 have e4: "writeEnd ?s = Returned (?s\<lparr> emitted :=
        emitted ?s @ [Data cdhA, Data cdhF, Data endHeader, End] \<rparr>)"
    unfolding e2 by simp
  have e5: "emitted (?s\<lparr> emitted :=
        emitted ?s @ [Data cdhA, Data cdhF, Data endHeader, End] \<rparr>)
      = emitted ?s @ [Data cdhA, Data cdhF, Data endHeader, End]"
    by simp
  from a1 a2 a3 6 a5 w e1 e2 e3 e4 e5 c show ?thesis by blast
qed

end
